theory Spec2Isabelle
  imports Main "HOL-Library.AList" "HOL-Library.Char_ord" "HOL-Library.List_Lexorder"
    "HOL-Library.Multiset"
begin

section \<open>JavaScript values\<close>

text \<open>
  Values of type \<^verbatim>\<open>any\<close> are modelled as JSON trees. An object is the list of its own
  properties in \<^verbatim>\<open>Object.keys\<close> order; an array is an object keyed by its indices.
  Numbers are integers here: no operation of the program computes with them.
\<close>

datatype json =
    JUndefined
  | JNull
  | JBool bool
  | JNum int
  | JStr string
  | JObj "(string \<times> json) list"

type_synonym obj = "(string \<times> json) list"

text \<open>What a \<^verbatim>\<open>throw\<close> carries: an \<^verbatim>\<open>Error\<close> with its message, or anything else.\<close>

datatype exn = ErrorObj string | OtherThrown

text \<open>The settled state of the promise an \<^verbatim>\<open>async\<close> function returns.\<close>

datatype 'a promise = Fulfilled 'a | Rejected exn

fun truthy :: "json \<Rightarrow> bool" where
  "truthy JUndefined = False"
| "truthy JNull = False"
| "truthy (JBool b) = b"
| "truthy (JNum n) = (n \<noteq> 0)"
| "truthy (JStr s) = (s \<noteq> [])"
| "truthy (JObj kvs) = True"

text \<open>\<^verbatim>\<open>a || b\<close>\<close>

definition js_or :: "json \<Rightarrow> json \<Rightarrow> json" where
  "js_or a b = (if truthy a then a else b)"

text \<open>\<^verbatim>\<open>o.k\<close> on a value that is neither null nor undefined; \<^verbatim>\<open>o?.k\<close> on any value.\<close>

fun getProp :: "json \<Rightarrow> string \<Rightarrow> json" where
  "getProp (JObj kvs) k = (case map_of kvs k of Some v \<Rightarrow> v | None \<Rightarrow> JUndefined)"
| "getProp _ k = JUndefined"

text \<open>\<^verbatim>\<open>typeof v === 'object'\<close> (true of null as well)\<close>

fun isObjectType :: "json \<Rightarrow> bool" where
  "isObjectType (JObj kvs) = True"
| "isObjectType JNull = True"
| "isObjectType _ = False"

text \<open>\<^verbatim>\<open>k in o\<close> for an object \<open>o\<close>\<close>

fun hasKey :: "json \<Rightarrow> string \<Rightarrow> bool" where
  "hasKey (JObj kvs) k = (k \<in> set (map fst kvs))"
| "hasKey _ k = False"

text \<open>\<^verbatim>\<open>d.$source || d.source?.label\<close>\<close>

definition sourceOf :: "json \<Rightarrow> json" where
  "sourceOf d = js_or (getProp d ''$source'') (getProp (getProp d ''source'') ''label'')"

text \<open>\<^verbatim>\<open>s.endsWith(t)\<close> and \<^verbatim>\<open>s.slice(0, -n)\<close>\<close>

definition endsWith :: "string \<Rightarrow> string \<Rightarrow> bool" where
  "endsWith s t = (length t \<le> length s \<and> drop (length s - length t) s = t)"

definition sliceOff :: "string \<Rightarrow> nat \<Rightarrow> string" where
  "sliceOff s n = take (length s - n) s"

section \<open>Deltas and the host\<close>

record pathValue =
  pv_path :: string
  pv_value :: json

record update =
  u_source :: string
  u_timestamp :: string
  u_values :: "pathValue list option"
  u_meta :: "pathValue list option"

record delta =
  d_context :: string
  d_updates :: "update list"

datatype logmsg =
    LogSetValue string json "string option"
  | LogNoOriginalSource string
  | LogSendingDelta string delta
  | LogCreating string json
  | LogAlreadyRegistered string
  | LogRegistering string
  | LogPutReceived string json
  | LogUnregistering string

text \<open>
  The host (\<^verbatim>\<open>ServerAPI\<close>) and the runtime as this plugin sees them. \<open>getSelfPath\<close> reads
  the tree and may throw; \<open>getPathApi\<close> is \<^verbatim>\<open>app.getPath\<close>, which a host may lack;
  \<open>httpVessel\<close> is the body of the HTTP read of the vessel, \<open>None\<close> when the request
  fails, is not answered with success or does not parse; \<open>localeCompare\<close> is the
  runtime's \<^verbatim>\<open>String.prototype.localeCompare\<close>; \<open>handleMessageThrows\<close> says for which
  deltas \<^verbatim>\<open>app.handleMessage\<close> throws, and \<open>submitted\<close> collects the deltas it
  accepted; \<open>registerPutThrows\<close> says for which paths \<^verbatim>\<open>app.registerPutHandler\<close>
  throws; \<open>installed\<close> is the host's table of the PUT handlers installed through this
  plugin, each with the identifier behind its deregistration function, its context, its
  path and its source filter;
  \<open>debugLog\<close> collects the calls of \<^verbatim>\<open>app.debug\<close>; \<open>timers\<close> collects the paths whose
  delayed read-back was scheduled.
\<close>

record app =
  getSelfPath :: "string \<Rightarrow> exn + json"
  getPathApi :: "(string \<Rightarrow> exn + json) option"
  httpVessel :: "json option"
  localeCompare :: "string \<Rightarrow> string \<Rightarrow> int"
  handleMessageThrows :: "delta \<Rightarrow> exn option"
  registerPutThrows :: "string \<Rightarrow> exn option"
  submitted :: "(string \<times> delta) list"
  installed :: "(nat \<times> string \<times> string \<times> string option) list"
  nextCap :: nat
  debugLog :: "logmsg list"
  timers :: "string list"

definition debug :: "logmsg \<Rightarrow> app \<Rightarrow> app" where
  "debug m a = a\<lparr>debugLog := debugLog a @ [m]\<rparr>"

definition handleMessage :: "string \<Rightarrow> delta \<Rightarrow> app \<Rightarrow> exn + app" where
  "handleMessage pid d a =
     (case handleMessageThrows a d of
        Some e \<Rightarrow> Inl e
      | None \<Rightarrow> Inr (a\<lparr>submitted := submitted a @ [(pid, d)]\<rparr>))"

text \<open>
  A comparison of strings by their code units, one possible \<open>localeCompare\<close>.
\<close>

definition codeUnitCompare :: "string \<Rightarrow> string \<Rightarrow> int" where
  "codeUnitCompare x y = (if x < y then - 1 else if x = y then 0 else 1)"

text \<open>
  A host whose tree holds \<open>d\<close> at every path, whose \<^verbatim>\<open>handleMessage\<close> accepts every
  delta, and which has seen no call yet.
\<close>

definition hostWith :: "json \<Rightarrow> app" where
  "hostWith d =
     \<lparr>getSelfPath = (\<lambda>p. Inr d), getPathApi = None, httpVessel = None,
      localeCompare = codeUnitCompare,
      handleMessageThrows = (\<lambda>m. None), registerPutThrows = (\<lambda>p. None), submitted = [],
      installed = [], nextCap = 0, debugLog = [], timers = []\<rparr>"

section \<open>PathManager\<close>

definition PLUGIN_ID :: string where
  "PLUGIN_ID = ''signalk-whatif-helper''"

definition SOURCE_LABEL :: string where
  "SOURCE_LABEL = ''whatif-helper''"

definition whatifSuffix :: string where
  "whatifSuffix = ''.'' @ SOURCE_LABEL"

record pathManager =
  createdPaths :: "(string \<times> obj) list"
  selfContext :: string

text \<open>
  The loop \<^verbatim>\<open>while (s.endsWith(whatifSuffix)) s = s.slice(0, -whatifSuffix.length)\<close>.
\<close>

function stripWhatif :: "string \<Rightarrow> string" where
  "stripWhatif s =
     (if endsWith s whatifSuffix then stripWhatif (sliceOff s (length whatifSuffix)) else s)"
  by pat_completeness auto
termination
  by (relation "measure length")
     (auto simp: endsWith_def sliceOff_def whatifSuffix_def SOURCE_LABEL_def)

declare stripWhatif.simps [simp del]

text \<open>
  The body of the inner \<^verbatim>\<open>try\<close> of \<^verbatim>\<open>setValue\<close>, from the value \<open>currentData\<close> read from
  the tree: the label it assigns, \<open>None\<close> where it assigns none, or the exception of
  calling \<^verbatim>\<open>endsWith\<close> on a source that is not a string.
\<close>

definition labelFromData :: "json \<Rightarrow> exn + string option" where
  "labelFromData currentData =
     (if truthy currentData then
        (let originalSource = sourceOf currentData in
         if truthy originalSource then
           (case originalSource of
              JStr s \<Rightarrow> Inr (Some (stripWhatif s @ ''.'' @ SOURCE_LABEL))
            | _ \<Rightarrow> Inl (ErrorObj ''originalSource.endsWith is not a function''))
         else Inr None)
      else Inr None)"

text \<open>
  The source label \<^verbatim>\<open>setValue\<close> puts on the delta, and the log entry of its
  \<^verbatim>\<open>catch\<close>. An explicit source is used when it is truthy (not the empty string).
\<close>

definition autoLabel :: "app \<Rightarrow> string \<Rightarrow> string \<times> logmsg list" where
  "autoLabel a path =
     (case getSelfPath a path of
        Inl e \<Rightarrow> (SOURCE_LABEL, [LogNoOriginalSource path])
      | Inr currentData \<Rightarrow>
          (case labelFromData currentData of
             Inl e \<Rightarrow> (SOURCE_LABEL, [LogNoOriginalSource path])
           | Inr None \<Rightarrow> (SOURCE_LABEL, [])
           | Inr (Some l) \<Rightarrow> (l, [])))"

definition sourceLabelFor :: "app \<Rightarrow> string \<Rightarrow> string option \<Rightarrow> string \<times> logmsg list" where
  "sourceLabelFor a path source =
     (case source of
        Some s \<Rightarrow> (if s \<noteq> [] then (s, []) else autoLabel a path)
      | None \<Rightarrow> autoLabel a path)"

definition mkDelta :: "string \<Rightarrow> string \<Rightarrow> string \<Rightarrow> string \<Rightarrow> json \<Rightarrow> delta" where
  "mkDelta ctx label now path v =
     \<lparr>d_context = ctx,
      d_updates = [\<lparr>u_source = label, u_timestamp = now,
                    u_values = Some [\<lparr>pv_path = path, pv_value = v\<rparr>], u_meta = None\<rparr>]\<rparr>"

text \<open>
  \<^verbatim>\<open>async setValue(path, value, source?)\<close>, with \<open>now\<close> the reading of the clock. The
  body has no \<^verbatim>\<open>await\<close>: it runs to its end inside the call, and what it throws
  settles the returned promise as rejected.
\<close>

definition setValue ::
  "pathManager \<Rightarrow> string \<Rightarrow> json \<Rightarrow> string option \<Rightarrow> string \<Rightarrow> app \<Rightarrow> unit promise \<times> app" where
  "setValue pm path v source now a =
     (let a1 = debug (LogSetValue path v source) a;
          (sourceLabel, logs) = sourceLabelFor a1 path source;
          a2 = a1\<lparr>debugLog := debugLog a1 @ logs\<rparr>;
          d = mkDelta (selfContext pm) sourceLabel now path v;
          a3 = debug (LogSendingDelta (selfContext pm) d) a2
      in case handleMessage PLUGIN_ID d a3 of
           Inl e \<Rightarrow> (Rejected e, a3)
         | Inr a4 \<Rightarrow> (Fulfilled (), a4\<lparr>timers := timers a4 @ [path]\<rparr>))"

text \<open>The source label of the delta a call of \<^verbatim>\<open>setValue\<close> builds.\<close>

definition storedLabel :: "app \<Rightarrow> string \<Rightarrow> string option \<Rightarrow> string" where
  "storedLabel a path source = fst (sourceLabelFor a path source)"

text \<open>\<^verbatim>\<open>async createPath(path, value, meta?)\<close>; \<open>now1\<close> and \<open>now2\<close> are its two clock readings.\<close>

definition metaDelta :: "string \<Rightarrow> string \<Rightarrow> string \<Rightarrow> obj \<Rightarrow> delta" where
  "metaDelta ctx now path m =
     \<lparr>d_context = ctx,
      d_updates = [\<lparr>u_source = SOURCE_LABEL, u_timestamp = now, u_values = None,
                    u_meta = Some [\<lparr>pv_path = path, pv_value = JObj m\<rparr>]\<rparr>]\<rparr>"

definition createPath ::
  "string \<Rightarrow> json \<Rightarrow> obj option \<Rightarrow> string \<Rightarrow> string \<Rightarrow> pathManager \<times> app
     \<Rightarrow> unit promise \<times> pathManager \<times> app" where
  "createPath path v meta now1 now2 st =
     (let (pm, a) = st;
          a1 = debug (LogCreating path v) a;
          pm1 = (case meta of
                   Some m \<Rightarrow> pm\<lparr>createdPaths := AList.update path m (createdPaths pm)\<rparr>
                 | None \<Rightarrow> pm);
          (r, a2) = setValue pm1 path v None now1 a1
      in case r of
           Rejected e \<Rightarrow> (Rejected e, pm1, a2)
         | Fulfilled u \<Rightarrow>
             (case meta of
                None \<Rightarrow> (Fulfilled (), pm1, a2)
              | Some m \<Rightarrow>
                  (case handleMessage PLUGIN_ID (metaDelta (selfContext pm1) now2 path m) a2 of
                     Inl e \<Rightarrow> (Rejected e, pm1, a2)
                   | Inr a3 \<Rightarrow> (Fulfilled (), pm1, a3))))"

definition getCreatedPaths :: "pathManager \<Rightarrow> string list" where
  "getCreatedPaths pm = map fst (createdPaths pm)"

definition isCreatedPath :: "pathManager \<Rightarrow> string \<Rightarrow> bool" where
  "isCreatedPath pm path = (map_of (createdPaths pm) path \<noteq> None)"

text \<open>The plugin's state when it starts, on a host without \<^verbatim>\<open>selfId\<close>.\<close>

definition newPathManager :: pathManager where
  "newPathManager = \<lparr>createdPaths = [], selfContext = ''vessels.self''\<rparr>"

record pathInfo =
  pi_path :: string
  pi_value :: json
  pi_timestamp :: json
  pi_source :: json
  pi_meta :: json

definition skipProps :: "string list" where
  "skipProps = [''meta'', ''timestamp'', ''$source'', ''source'', ''values'', ''pgn'', ''sentence'']"

text \<open>
  \<^verbatim>\<open>{ ...m, ...customMeta }\<close>: the properties of \<open>m\<close>, overridden and extended by those
  of \<open>customMeta\<close>. Spreading an object gives its properties, spreading a string gives
  its characters under their decimal indices, spreading any other value gives nothing.
  Metadata has no key that is an array index, so the merged object lists the
  properties of \<open>m\<close> first, as JavaScript does.
\<close>

definition digitChar :: "nat \<Rightarrow> char" where
  "digitChar n = char_of (48 + n)"

function showNat :: "nat \<Rightarrow> string" where
  "showNat n = (if n < 10 then [digitChar n] else showNat (n div 10) @ [digitChar (n mod 10)])"
  by pat_completeness auto
termination
  by (relation "measure id") auto

declare showNat.simps [simp del]

fun indexed :: "nat \<Rightarrow> string \<Rightarrow> obj" where
  "indexed i [] = []"
| "indexed i (c # cs) = (showNat i, JStr [c]) # indexed (Suc i) cs"

definition spread :: "json \<Rightarrow> obj" where
  "spread m = (case m of JObj kvs \<Rightarrow> kvs | JStr s \<Rightarrow> indexed 0 s | _ \<Rightarrow> [])"

definition mergeMeta :: "json \<Rightarrow> obj \<Rightarrow> json" where
  "mergeMeta m customMeta = JObj (foldl (\<lambda>acc kv. AList.update (fst kv) (snd kv) acc) (spread m) customMeta)"

definition withCustomMeta :: "pathManager \<Rightarrow> pathInfo \<Rightarrow> pathInfo" where
  "withCustomMeta pm info =
     (case map_of (createdPaths pm) (pi_path info) of
        Some customMeta \<Rightarrow> info\<lparr>pi_meta := mergeMeta (pi_meta info) customMeta\<rparr>
      | None \<Rightarrow> info)"

text \<open>The snapshot \<^verbatim>\<open>extractPaths\<close> pushes for an object that has a \<^verbatim>\<open>value\<close> key.\<close>

definition leafInfo :: "pathManager \<Rightarrow> json \<Rightarrow> string \<Rightarrow> pathInfo" where
  "leafInfo pm ob currentPath =
     (let info = \<lparr>pi_path = currentPath, pi_value = getProp ob ''value'',
                  pi_timestamp = getProp ob ''timestamp'', pi_source = sourceOf ob,
                  pi_meta = JUndefined\<rparr>;
          info1 = (if truthy (getProp ob ''meta'') then info\<lparr>pi_meta := getProp ob ''meta''\<rparr>
                   else info)
      in withCustomMeta pm info1)"

text \<open>
  \<^verbatim>\<open>extractPaths(obj, currentPath, paths)\<close>, returning what it pushes, in order;
  \<open>extractChildren\<close> is its loop over \<^verbatim>\<open>Object.keys(obj)\<close>. The keys of an object are
  distinct, so the loop reads each child from its own entry.
\<close>

fun extractPaths :: "pathManager \<Rightarrow> json \<Rightarrow> string \<Rightarrow> pathInfo list"
  and extractChildren :: "pathManager \<Rightarrow> (string \<times> json) list \<Rightarrow> string \<Rightarrow> pathInfo list" where
  "extractPaths pm (JObj kvs) currentPath =
     (if ''value'' \<in> set (map fst kvs) then [leafInfo pm (JObj kvs) currentPath] else [])
     @ extractChildren pm kvs currentPath"
| "extractPaths pm JUndefined currentPath = []"
| "extractPaths pm JNull currentPath = []"
| "extractPaths pm (JBool b) currentPath = []"
| "extractPaths pm (JNum n) currentPath = []"
| "extractPaths pm (JStr s) currentPath = []"
| "extractChildren pm [] currentPath = []"
| "extractChildren pm (kv # rest) currentPath =
     (if fst kv \<in> set skipProps \<or> fst kv = ''value'' then []
      else if truthy (snd kv) \<and> isObjectType (snd kv)
        then extractPaths pm (snd kv)
               (if currentPath \<noteq> [] then currentPath @ ''.'' @ fst kv else fst kv)
        else [])
     @ extractChildren pm rest currentPath"

definition fetchPathsFromAPI :: "app \<Rightarrow> pathManager \<Rightarrow> pathInfo list \<Rightarrow> pathInfo list" where
  "fetchPathsFromAPI a pm paths =
     (case httpVessel a of
        None \<Rightarrow> paths
      | Some data \<Rightarrow> paths @ extractPaths pm data [])"

text \<open>
  The first half of \<^verbatim>\<open>getAllPaths\<close>: the snapshots it collects before filtering. Its
  debug and error lines are not modelled: listing only reads the host.
\<close>

definition collectPaths :: "app \<Rightarrow> pathManager \<Rightarrow> pathInfo list" where
  "collectPaths a pm =
     (case (case getPathApi a of None \<Rightarrow> Inr JNull | Some g \<Rightarrow> g ''vessels.self'') of
        Inl e \<Rightarrow> fetchPathsFromAPI a pm []
      | Inr v0 \<Rightarrow>
          (let vesselData =
                 (if \<not> truthy v0
                  then (case getSelfPath a [] of Inl e \<Rightarrow> v0 | Inr v \<Rightarrow> v)
                  else v0);
               paths = (if truthy vesselData \<and> isObjectType vesselData
                        then extractPaths pm vesselData [] else [])
           in if length paths = 0 then fetchPathsFromAPI a pm paths else paths))"

record pathFilter =
  f_search :: "string option"
  f_hasValue :: "bool option"
  f_hasMeta :: "bool option"
  f_baseUnit :: "string option"

text \<open>
  \<^verbatim>\<open>toLowerCase\<close> on the letters A to Z (characters here are bytes; the other code
  points JavaScript folds are outside this model) and \<^verbatim>\<open>s.includes(t)\<close>.
\<close>

definition lowerChar :: "char \<Rightarrow> char" where
  "lowerChar c =
     (if CHR ''A'' \<le> c \<and> c \<le> CHR ''Z'' then char_of (of_char c + (32 :: nat)) else c)"

definition toLowerCase :: "string \<Rightarrow> string" where
  "toLowerCase s = map lowerChar s"

fun includesStr :: "string \<Rightarrow> string \<Rightarrow> bool" where
  "includesStr [] t = (t = [])"
| "includesStr (c # cs) t = (take (length t) (c # cs) = t \<or> includesStr cs t)"

definition searchFilter :: "string \<Rightarrow> pathInfo \<Rightarrow> bool" where
  "searchFilter search p = includesStr (toLowerCase (pi_path p)) (toLowerCase search)"

definition hasValueFilter :: "pathInfo \<Rightarrow> bool" where
  "hasValueFilter p = (pi_value p \<noteq> JNull \<and> pi_value p \<noteq> JUndefined)"

definition hasMetaFilter :: "pathInfo \<Rightarrow> bool" where
  "hasMetaFilter p = (pi_meta p \<noteq> JUndefined)"

definition baseUnitFilter :: "string \<Rightarrow> pathInfo \<Rightarrow> bool" where
  "baseUnitFilter baseUnit p = (getProp (pi_meta p) ''units'' = JStr baseUnit)"

text \<open>The four guarded filter steps of \<^verbatim>\<open>getAllPaths\<close>, in the order of the code.\<close>

definition applyFilter :: "pathFilter \<Rightarrow> pathInfo list \<Rightarrow> pathInfo list" where
  "applyFilter f paths =
     (let f1 = (case f_search f of
                  Some search \<Rightarrow> if search \<noteq> [] then filter (searchFilter search) paths else paths
                | None \<Rightarrow> paths);
          f2 = (if f_hasValue f = Some True then filter hasValueFilter f1 else f1);
          f3 = (if f_hasMeta f = Some True then filter hasMetaFilter f2 else f2);
          f4 = (case f_baseUnit f of
                  Some baseUnit \<Rightarrow> if baseUnit \<noteq> [] then filter (baseUnitFilter baseUnit) f3 else f3
                | None \<Rightarrow> f3)
      in f4)"

text \<open>
  \<^verbatim>\<open>filtered.sort((a, b) => a.path.localeCompare(b.path))\<close>. The sort of an array is
  stable; for a comparator that is an order, the stable arrangement is the one that
  inserting the elements from the right, each before the first that is not smaller,
  produces.
\<close>

fun insertByPath :: "(string \<Rightarrow> string \<Rightarrow> int) \<Rightarrow> pathInfo \<Rightarrow> pathInfo list \<Rightarrow> pathInfo list" where
  "insertByPath cmp x [] = [x]"
| "insertByPath cmp x (y # ys) =
     (if cmp (pi_path x) (pi_path y) \<le> 0 then x # y # ys else y # insertByPath cmp x ys)"

definition sortByPath :: "(string \<Rightarrow> string \<Rightarrow> int) \<Rightarrow> pathInfo list \<Rightarrow> pathInfo list" where
  "sortByPath cmp xs = foldr (insertByPath cmp) xs []"

definition getAllPaths :: "app \<Rightarrow> pathManager \<Rightarrow> pathFilter option \<Rightarrow> pathInfo list" where
  "getAllPaths a pm flt =
     (let paths = collectPaths a pm;
          filtered = (case flt of Some f \<Rightarrow> applyFilter f paths | None \<Rightarrow> paths)
      in sortByPath (localeCompare a) filtered)"

text \<open>
  \<^verbatim>\<open>async getPath(path)\<close>: \<open>None\<close> is its \<^verbatim>\<open>null\<close>. The \<^verbatim>\<open>in\<close> operator throws on
  \<^verbatim>\<open>null\<close>, whose type is \<^verbatim>\<open>'object'\<close>.
\<close>

definition getPath :: "app \<Rightarrow> pathManager \<Rightarrow> string \<Rightarrow> pathInfo option promise" where
  "getPath a pm path =
     (case getSelfPath a path of
        Inl e \<Rightarrow> Rejected e
      | Inr data \<Rightarrow>
          if data = JUndefined then Fulfilled None
          else if data = JNull then Rejected (ErrorObj ''Cannot use in operator to search for value in null'')
          else
            (let info = \<lparr>pi_path = path,
                         pi_value = (if isObjectType data \<and> hasKey data ''value''
                                     then getProp data ''value'' else data),
                         pi_timestamp = getProp data ''timestamp'',
                         pi_source = sourceOf data,
                         pi_meta = JUndefined\<rparr>
             in case getSelfPath a (path @ ''.meta'') of
                  Inl e \<Rightarrow> Rejected e
                | Inr metaPath \<Rightarrow>
                    Fulfilled (Some (withCustomMeta pm
                      (if truthy metaPath then info\<lparr>pi_meta := metaPath\<rparr> else info)))))"

section \<open>PutHandlerManager\<close>

text \<open>
  The host's side of \<^verbatim>\<open>registerPutHandler(context, path, handler, source)\<close>: it enters
  the handler in its table and returns the function that removes that entry, here the
  entry's identifier. Every handler this plugin installs is the same closure, so the
  table does not store it.
\<close>

definition registerPutHandler ::
  "string \<Rightarrow> string \<Rightarrow> string option \<Rightarrow> app \<Rightarrow> exn + (nat \<times> app)" where
  "registerPutHandler ctx path source a =
     (case registerPutThrows a path of
        Some e \<Rightarrow> Inl e
      | None \<Rightarrow>
          Inr (nextCap a,
               a\<lparr>installed := installed a @ [(nextCap a, ctx, path, source)],
                 nextCap := Suc (nextCap a)\<rparr>))"

definition callUnregister :: "nat \<Rightarrow> app \<Rightarrow> app" where
  "callUnregister cap a = a\<lparr>installed := filter (\<lambda>e. fst e \<noteq> cap) (installed a)\<rparr>"

record putHandlerInfo =
  h_path :: string
  registeredAt :: string
  acceptAllSources :: bool

record putOptions =
  o_acceptAllSources :: "bool option"

record putHandlerManager =
  handlers :: "(string \<times> putHandlerInfo) list"
  unregisterFunctions :: "(string \<times> nat) list"

definition newPutHandlerManager :: putHandlerManager where
  "newPutHandlerManager = \<lparr>handlers = [], unregisterFunctions = []\<rparr>"

datatype putState = COMPLETED | PENDING | FAILED

record putResult =
  state :: putState
  statusCode :: "int option"
  message :: "string option"

text \<open>
  The host's callback: what a call of it with a result throws, if anything.
\<close>

type_synonym callback = "putResult \<Rightarrow> exn option"

text \<open>
  The closure \<^verbatim>\<open>handler(context, putPath, value, callback)\<close>. It calls the
  \<^verbatim>\<open>async\<close> \<^verbatim>\<open>setValue\<close> without \<^verbatim>\<open>await\<close>: the call returns a promise and throws
  nothing, whatever the promise settles to, so only a throwing callback reaches the
  \<^verbatim>\<open>catch\<close>. The result is what the handler returns or throws, the results it passed to
  the callback, in order, and the host afterwards.
\<close>

definition putHandler ::
  "pathManager \<Rightarrow> string \<Rightarrow> string \<Rightarrow> json \<Rightarrow> callback option \<Rightarrow> string \<Rightarrow> app
     \<Rightarrow> (exn + putResult) \<times> putResult list \<times> app" where
  "putHandler pm context putPath v cb now a =
     (let a1 = debug (LogPutReceived putPath v) a;
          (promise, a2) = setValue pm putPath v None now a1;
          result = \<lparr>state = COMPLETED, statusCode = Some 200, message = None\<rparr>;
          thrown = (case cb of Some f \<Rightarrow> f result | None \<Rightarrow> None);
          calls = (case cb of Some f \<Rightarrow> [result] | None \<Rightarrow> [])
      in case thrown of
           None \<Rightarrow> (Inr result, calls, a2)
         | Some error \<Rightarrow>
             (let result' = \<lparr>state = FAILED, statusCode = Some 500,
                             message = Some (case error of ErrorObj m \<Rightarrow> m
                                             | OtherThrown \<Rightarrow> ''Unknown error'')\<rparr>
              in case cb of
                   Some f \<Rightarrow>
                     (case f result' of
                        Some error' \<Rightarrow> (Inl error', calls @ [result'], a2)
                      | None \<Rightarrow> (Inr result', calls @ [result'], a2))
                 | None \<Rightarrow> (Inr result', calls, a2)))"

text \<open>
  \<^verbatim>\<open>registerHandler(path, options)\<close> with the clock reading \<open>now\<close>; the first component
  is what the call throws, if anything.
\<close>

definition registerHandler ::
  "string \<Rightarrow> putOptions \<Rightarrow> string \<Rightarrow> putHandlerManager \<times> app
     \<Rightarrow> exn option \<times> putHandlerManager \<times> app" where
  "registerHandler path options now st =
     (let (m, a) = st in
      if map_of (handlers m) path \<noteq> None
      then (None, m, debug (LogAlreadyRegistered path) a)
      else
        (let a1 = debug (LogRegistering path) a in
         case registerPutHandler ''vessels.self'' path
                (if o_acceptAllSources options = Some True then None else Some SOURCE_LABEL) a1 of
           Inl e \<Rightarrow> (Some e, m, a1)
         | Inr (unregister, a2) \<Rightarrow>
             (None,
              m\<lparr>handlers := AList.update path
                    \<lparr>h_path = path, registeredAt = now,
                     acceptAllSources = (case o_acceptAllSources options of
                                           Some b \<Rightarrow> b | None \<Rightarrow> False)\<rparr>
                    (handlers m),
                unregisterFunctions := AList.update path unregister (unregisterFunctions m)\<rparr>,
              a2)))"

definition unregisterHandler ::
  "string \<Rightarrow> putHandlerManager \<times> app \<Rightarrow> bool \<times> putHandlerManager \<times> app" where
  "unregisterHandler path st =
     (let (m, a) = st in
      case map_of (unregisterFunctions m) path of
        None \<Rightarrow> (False, m, a)
      | Some unregister \<Rightarrow>
          (let a1 = debug (LogUnregistering path) a;
               a2 = callUnregister unregister a1
           in (True,
               m\<lparr>handlers := AList.delete path (handlers m),
                 unregisterFunctions := AList.delete path (unregisterFunctions m)\<rparr>,
               a2)))"

definition getHandlers :: "putHandlerManager \<Rightarrow> putHandlerInfo list" where
  "getHandlers m = map snd (handlers m)"

definition hasPutHandler :: "putHandlerManager \<Rightarrow> string \<Rightarrow> bool" where
  "hasPutHandler m path = (map_of (handlers m) path \<noteq> None)"

definition getHandler :: "putHandlerManager \<Rightarrow> string \<Rightarrow> putHandlerInfo option" where
  "getHandler m path = map_of (handlers m) path"

text \<open>
  \<^verbatim>\<open>unregisterAll()\<close>: the loop over \<^verbatim>\<open>this.handlers.keys()\<close>. Each round deletes at
  most the key it is visiting, which a map's iterator tolerates, so the loop visits the
  keys present at its start, in order.
\<close>

definition unregisterAll :: "putHandlerManager \<times> app \<Rightarrow> putHandlerManager \<times> app" where
  "unregisterAll st = foldl (\<lambda>s path. snd (unregisterHandler path s)) st (map fst (handlers (fst st)))"

text \<open>The calls a client of the manager can make, and a run of them from a state.\<close>

datatype putCall =
    Register string putOptions string
  | Unregister string
  | UnregisterAll

fun putStep :: "putHandlerManager \<times> app \<Rightarrow> putCall \<Rightarrow> putHandlerManager \<times> app" where
  "putStep st (Register path options now) = snd (registerHandler path options now st)"
| "putStep st (Unregister path) = snd (unregisterHandler path st)"
| "putStep st UnregisterAll = unregisterAll st"

definition putRun :: "putCall list \<Rightarrow> putHandlerManager \<times> app \<Rightarrow> putHandlerManager \<times> app" where
  "putRun calls st = foldl putStep st calls"

text \<open>The handlers installed in the host for a path.\<close>

definition activeFor :: "app \<Rightarrow> string \<Rightarrow> (nat \<times> string \<times> string \<times> string option) list" where
  "activeFor a path = filter (\<lambda>e. fst (snd (snd e)) = path) (installed a)"

text \<open>
  The invariant of the two maps of the manager: each has distinct keys (they are maps),
  they have the same keys, and every stored registration names the path it is stored
  under.
\<close>

definition keysOK :: "putHandlerManager \<Rightarrow> bool" where
  "keysOK m =
     (distinct (map fst (handlers m))
      \<and> distinct (map fst (unregisterFunctions m))
      \<and> set (map fst (handlers m)) = set (map fst (unregisterFunctions m))
      \<and> list_all (\<lambda>kv. h_path (snd kv) = fst kv) (handlers m))"

text \<open>
  The manager against the host's table: the table's entries have distinct identifiers
  below the next one to be issued, each is the one whose deregistration function the
  manager holds for the entry's path, and every function the manager holds has its
  entry.
\<close>

definition hostOK :: "putHandlerManager \<Rightarrow> app \<Rightarrow> bool" where
  "hostOK m a =
     (distinct (map fst (installed a))
      \<and> (\<forall>e \<in> set (installed a). fst e < nextCap a
            \<and> map_of (unregisterFunctions m) (fst (snd (snd e))) = Some (fst e))
      \<and> (\<forall>p cap. map_of (unregisterFunctions m) p = Some cap \<longrightarrow>
            (\<exists>ctx src. (cap, ctx, p, src) \<in> set (installed a))))"

text \<open>Both together, of a state of manager and host.\<close>

definition putInv :: "putHandlerManager \<times> app \<Rightarrow> bool" where
  "putInv st = (keysOK (fst st) \<and> hostOK (fst st) (snd st))"

section \<open>WebSocketServer\<close>

datatype wsUpdate = WsUpdate pathInfo | WsFull "pathInfo list" | WsError string

text \<open>
  A connected client: \<open>c_open\<close> is \<^verbatim>\<open>ws.readyState === WebSocket.OPEN\<close>, \<open>subscriptions\<close>
  the set in insertion order, \<open>outbox\<close> the messages given to \<^verbatim>\<open>ws.send\<close>.
\<close>

record client =
  c_id :: string
  c_open :: bool
  subscriptions :: "string list"
  outbox :: "wsUpdate list"

definition send :: "client \<Rightarrow> wsUpdate \<Rightarrow> client" where
  "send c msg = (if c_open c then c\<lparr>outbox := outbox c @ [msg]\<rparr> else c)"

definition sendError :: "client \<Rightarrow> string \<Rightarrow> client" where
  "sendError c msg = send c (WsError msg)"

text \<open>\<^verbatim>\<open>Set.add\<close>, \<^verbatim>\<open>Set.delete\<close>, \<^verbatim>\<open>Set.has\<close>\<close>

definition setAdd :: "string \<Rightarrow> string list \<Rightarrow> string list" where
  "setAdd x xs = (if x \<in> set xs then xs else xs @ [x])"

definition setDelete :: "string \<Rightarrow> string list \<Rightarrow> string list" where
  "setDelete x xs = filter (\<lambda>y. y \<noteq> x) xs"

definition setHas :: "string list \<Rightarrow> string \<Rightarrow> bool" where
  "setHas xs x = (x \<in> set xs)"

text \<open>
  \<^verbatim>\<open>handleDelta(delta)\<close> on the list of clients. The events of the bus carry a string
  as path; an event whose path is some other truthy value is outside this model
  (\<open>None\<close>).
\<close>

definition deltaInfo :: "string \<Rightarrow> json \<Rightarrow> pathInfo" where
  "deltaInfo path dl =
     \<lparr>pi_path = path, pi_value = getProp dl ''value'', pi_timestamp = getProp dl ''timestamp'',
      pi_source = sourceOf dl, pi_meta = JUndefined\<rparr>"

definition handleDelta :: "json \<Rightarrow> client list \<Rightarrow> client list option" where
  "handleDelta dl clients =
     (if \<not> truthy dl \<or> \<not> truthy (getProp dl ''path'') then Some clients
      else case getProp dl ''path'' of
             JStr path \<Rightarrow>
               Some (map (\<lambda>c. if setHas (subscriptions c) path \<or> setHas (subscriptions c) ''*''
                               then send c (WsUpdate (deltaInfo path dl)) else c) clients)
           | _ \<Rightarrow> None)"

text \<open>
  The loop of \<^verbatim>\<open>sendCurrentValues\<close> over the subscribed paths: the snapshots pushed, or
  the rejection of the first \<^verbatim>\<open>getPath\<close> that fails.
\<close>

fun currentValues :: "app \<Rightarrow> pathManager \<Rightarrow> string list \<Rightarrow> exn + pathInfo list" where
  "currentValues a pm [] = Inr []"
| "currentValues a pm (path # rest) =
     (case getPath a pm path of
        Rejected e \<Rightarrow> Inl e
      | Fulfilled r \<Rightarrow>
          (case currentValues a pm rest of
             Inl e \<Rightarrow> Inl e
           | Inr infos \<Rightarrow> Inr ((case r of Some info \<Rightarrow> [info] | None \<Rightarrow> []) @ infos)))"

definition sendCurrentValues :: "app \<Rightarrow> pathManager \<Rightarrow> client \<Rightarrow> unit promise \<times> client" where
  "sendCurrentValues a pm c =
     (if setHas (subscriptions c) ''*''
      then (Fulfilled (), send c (WsFull (getAllPaths a pm None)))
      else case currentValues a pm (subscriptions c) of
             Inl e \<Rightarrow> (Rejected e, c)
           | Inr paths \<Rightarrow> (Fulfilled (), send c (WsFull paths)))"

record wsMessage =
  m_type :: string
  m_paths :: "string list option"
  m_path :: "string option"

text \<open>
  \<^verbatim>\<open>handleMessage(client, message)\<close> of the socket server. The promise of
  \<^verbatim>\<open>sendCurrentValues\<close> is dropped. Debug lines are not modelled.
\<close>

definition subscribeTo :: "wsMessage \<Rightarrow> client \<Rightarrow> client" where
  "subscribeTo msg c =
     (case m_paths msg of
        Some paths \<Rightarrow> c\<lparr>subscriptions := foldl (\<lambda>subs path. setAdd path subs) (subscriptions c) paths\<rparr>
      | None \<Rightarrow>
          (case m_path msg of
             Some path \<Rightarrow> if path \<noteq> [] then c\<lparr>subscriptions := setAdd path (subscriptions c)\<rparr> else c
           | None \<Rightarrow> c))"

definition unsubscribeFrom :: "wsMessage \<Rightarrow> client \<Rightarrow> client" where
  "unsubscribeFrom msg c =
     (case m_paths msg of
        Some paths \<Rightarrow> c\<lparr>subscriptions := foldl (\<lambda>subs path. setDelete path subs) (subscriptions c) paths\<rparr>
      | None \<Rightarrow>
          (case m_path msg of
             Some path \<Rightarrow> if path \<noteq> [] then c\<lparr>subscriptions := setDelete path (subscriptions c)\<rparr> else c
           | None \<Rightarrow> c))"

definition wsHandleMessage :: "app \<Rightarrow> pathManager \<Rightarrow> client \<Rightarrow> wsMessage \<Rightarrow> client" where
  "wsHandleMessage a pm c msg =
     (if m_type msg = ''subscribe'' then snd (sendCurrentValues a pm (subscribeTo msg c))
      else if m_type msg = ''unsubscribe'' then unsubscribeFrom msg c
      else if m_type msg = ''unsubscribeAll'' then c\<lparr>subscriptions := []\<rparr>
      else sendError c (''Unknown message type: '' @ m_type msg))"

text \<open>A host whose \<^verbatim>\<open>handleMessage\<close> throws on every delta.\<close>

definition failingHost :: app where
  "failingHost = (hostWith JUndefined)\<lparr>handleMessageThrows := (\<lambda>d. Some (ErrorObj ''bus down''))\<rparr>"

text \<open>
  The snapshot a read of a path contributes to a \<^verbatim>\<open>full\<close> message: none when
  \<^verbatim>\<open>getPath\<close> answers \<^verbatim>\<open>null\<close>.
\<close>

definition found :: "app \<Rightarrow> pathManager \<Rightarrow> string \<Rightarrow> pathInfo option" where
  "found a pm path = (case getPath a pm path of Fulfilled r \<Rightarrow> r | Rejected e \<Rightarrow> None)"

text \<open>
  A host over a finite tree: the paths listed hold the values given, every other read
  is undefined.
\<close>

definition hostOf :: "(string \<times> json) list \<Rightarrow> app" where
  "hostOf tree =
     (hostWith JUndefined)\<lparr>getSelfPath :=
        (\<lambda>p. Inr (case map_of tree p of Some d \<Rightarrow> d | None \<Rightarrow> JUndefined))\<rparr>"

text \<open>
  What a filter asks of a snapshot, in the words of the specification: every criterion
  that is given holds. A criterion is given when the code's guard sees it: a search or
  base unit that is not the empty string, a flag that is \<^verbatim>\<open>true\<close>.
\<close>

definition satisfies :: "pathFilter \<Rightarrow> pathInfo \<Rightarrow> bool" where
  "satisfies f p =
     ((case f_search f of
         Some search \<Rightarrow> search \<noteq> [] \<longrightarrow> includesStr (toLowerCase (pi_path p)) (toLowerCase search)
       | None \<Rightarrow> True)
      \<and> (f_hasValue f = Some True \<longrightarrow> pi_value p \<noteq> JNull \<and> pi_value p \<noteq> JUndefined)
      \<and> (f_hasMeta f = Some True \<longrightarrow> pi_meta p \<noteq> JUndefined)
      \<and> (case f_baseUnit f of
            Some baseUnit \<Rightarrow> baseUnit \<noteq> [] \<longrightarrow> getProp (pi_meta p) ''units'' = JStr baseUnit
          | None \<Rightarrow> True))"

text \<open>The filter that keeps one criterion of \<open>f\<close> and drops the others.\<close>

definition searchOnly :: "pathFilter \<Rightarrow> pathFilter" where
  "searchOnly f = \<lparr>f_search = f_search f, f_hasValue = None, f_hasMeta = None, f_baseUnit = None\<rparr>"

definition hasValueOnly :: "pathFilter \<Rightarrow> pathFilter" where
  "hasValueOnly f = \<lparr>f_search = None, f_hasValue = f_hasValue f, f_hasMeta = None, f_baseUnit = None\<rparr>"

definition hasMetaOnly :: "pathFilter \<Rightarrow> pathFilter" where
  "hasMetaOnly f = \<lparr>f_search = None, f_hasValue = None, f_hasMeta = f_hasMeta f, f_baseUnit = None\<rparr>"

definition baseUnitOnly :: "pathFilter \<Rightarrow> pathFilter" where
  "baseUnitOnly f = \<lparr>f_search = None, f_hasValue = None, f_hasMeta = None, f_baseUnit = f_baseUnit f\<rparr>"

text \<open>
  A comparator that orders: of two strings one is not after the other, and not being
  after is transitive.
\<close>

definition consistentComparator :: "(string \<Rightarrow> string \<Rightarrow> int) \<Rightarrow> bool" where
  "consistentComparator cmp =
     ((\<forall>x y. 0 < cmp x y \<longrightarrow> cmp y x \<le> 0)
      \<and> (\<forall>x y z. cmp x y \<le> 0 \<and> cmp y z \<le> 0 \<longrightarrow> cmp x z \<le> 0))"

text \<open>\<open>x\<close> is not after \<open>y\<close> when the comparator compares their paths.\<close>

definition byPath :: "(string \<Rightarrow> string \<Rightarrow> int) \<Rightarrow> pathInfo \<Rightarrow> pathInfo \<Rightarrow> bool" where
  "byPath cmp x y = (cmp (pi_path x) (pi_path y) \<le> 0)"

text \<open>The calls that reach the path manager's state, and a run of them.\<close>

datatype pmCall =
    CreatePath string json "obj option" string string
  | SetValue string json "string option" string

fun pmStep :: "pathManager \<times> app \<Rightarrow> pmCall \<Rightarrow> pathManager \<times> app" where
  "pmStep st (CreatePath path v meta now1 now2) = snd (createPath path v meta now1 now2 st)"
| "pmStep st (SetValue path v source now) = (fst st, snd (setValue (fst st) path v source now (snd st)))"

definition pmRun :: "pmCall list \<Rightarrow> pathManager \<times> app \<Rightarrow> pathManager \<times> app" where
  "pmRun calls st = foldl pmStep st calls"

text \<open>
  A comparison that ignores the case of the letters A to Z, as a collation does before
  it looks at case.
\<close>

definition caseFoldCompare :: "string \<Rightarrow> string \<Rightarrow> int" where
  "caseFoldCompare x y = codeUnitCompare (toLowerCase x) (toLowerCase y)"

text \<open>The host \<open>hostWith d\<close> on a runtime whose \<^verbatim>\<open>localeCompare\<close> ignores case.\<close>

definition foldingHost :: "json \<Rightarrow> app" where
  "foldingHost d = (hostWith d)\<lparr>localeCompare := caseFoldCompare\<rparr>"

section \<open>Source labels\<close>

lemma whatifSuffix_length: "length whatifSuffix = 14"
  by (simp add: whatifSuffix_def SOURCE_LABEL_def)

lemma endsWith_append: "endsWith (s @ t) t"
  by (simp add: endsWith_def)

lemma endsWith_iff: "endsWith s t \<longleftrightarrow> (\<exists>u. s = u @ t)"
proof
  assume h: "endsWith s t"
  then have "s = take (length s - length t) s @ t"
    by (metis append_take_drop_id endsWith_def)
  then show "\<exists>u. s = u @ t" ..
next
  assume "\<exists>u. s = u @ t"
  then show "endsWith s t" by (auto simp: endsWith_def)
qed

lemma sliceOff_append: "sliceOff (u @ t) (length t) = u"
  by (simp add: sliceOff_def)

lemma stripWhatif_not_endsWith: "\<not> endsWith (stripWhatif s) whatifSuffix"
  by (induction s rule: stripWhatif.induct) (subst stripWhatif.simps, simp)

lemma stripWhatif_append: "stripWhatif (s @ whatifSuffix) = stripWhatif s"
  by (subst stripWhatif.simps) (simp add: endsWith_append sliceOff_append)

lemma stripWhatif_fixed: "\<not> endsWith s whatifSuffix \<Longrightarrow> stripWhatif s = s"
  by (subst stripWhatif.simps) simp

lemma stripWhatif_decompose:
  "\<exists>n. s = stripWhatif s @ concat (replicate n whatifSuffix)"
proof (induction s rule: stripWhatif.induct)
  case (1 s)
  show ?case
  proof (cases "endsWith s whatifSuffix")
    case True
    then obtain u where u: "s = u @ whatifSuffix"
      by (auto simp: endsWith_iff)
    with True "1" obtain n where n: "u = stripWhatif u @ concat (replicate n whatifSuffix)"
      by (auto simp: sliceOff_append)
    have "s = stripWhatif s @ concat (replicate (Suc n) whatifSuffix)"
      using n u stripWhatif_append [of u]
      by (metis append.assoc concat.simps(2) concat_append replicate_Suc replicate_append_same
          concat.simps(1) append_Nil2)
    then show ?thesis ..
  next
    case False
    then have "s = stripWhatif s @ concat (replicate 0 whatifSuffix)"
      by (simp add: stripWhatif_fixed)
    then show ?thesis ..
  qed
qed

lemma autoLabel_debugLog [simp]: "autoLabel (a\<lparr>debugLog := l\<rparr>) path = autoLabel a path"
  by (simp add: autoLabel_def)

lemma sourceLabelFor_debugLog [simp]:
  "sourceLabelFor (a\<lparr>debugLog := l\<rparr>) path source = sourceLabelFor a path source"
  by (simp add: sourceLabelFor_def split: option.splits)

lemma setValue_fulfilled:
  assumes "handleMessageThrows a (mkDelta (selfContext pm) (storedLabel a path source) now path v) = None"
  shows "fst (setValue pm path v source now a) = Fulfilled ()"
    and "submitted (snd (setValue pm path v source now a)) =
           submitted a @ [(PLUGIN_ID, mkDelta (selfContext pm) (storedLabel a path source) now path v)]"
  using assms
  by (auto simp: setValue_def storedLabel_def handleMessage_def debug_def Let_def
           split: prod.splits option.splits)

lemma setValue_rejected:
  assumes "handleMessageThrows a (mkDelta (selfContext pm) (storedLabel a path source) now path v) = Some e"
  shows "fst (setValue pm path v source now a) = Rejected e"
    and "submitted (snd (setValue pm path v source now a)) = submitted a"
  using assms
  by (auto simp: setValue_def storedLabel_def handleMessage_def debug_def Let_def
           split: prod.splits option.splits)

lemma storedLabel_present:
  assumes "getSelfPath a path = Inr d" and "sourceOf d = JStr S" and "S \<noteq> []"
  shows "storedLabel a path None = stripWhatif S @ whatifSuffix"
proof -
  have "truthy d"
    using assms by (cases d) (auto simp: sourceOf_def js_or_def)
  with assms show ?thesis
    by (simp add: storedLabel_def sourceLabelFor_def autoLabel_def labelFromData_def
        whatifSuffix_def)
qed

lemma storedLabel_absent:
  assumes "getSelfPath a path = Inl e \<or> (getSelfPath a path = Inr d \<and> \<not> truthy (sourceOf d))"
  shows "storedLabel a path None = SOURCE_LABEL"
  using assms
  by (auto simp: storedLabel_def sourceLabelFor_def autoLabel_def labelFromData_def)

lemma setValue_submitted:
  assumes "fst (setValue pm path v source now a) = Fulfilled ()"
  shows "submitted (snd (setValue pm path v source now a)) =
           submitted a @ [(PLUGIN_ID, mkDelta (selfContext pm) (storedLabel a path source) now path v)]"
  using assms
  by (auto simp: setValue_def storedLabel_def handleMessage_def debug_def Let_def
           split: prod.splits option.splits)

lemma stripWhatif_label: "stripWhatif (stripWhatif S @ whatifSuffix) = stripWhatif S"
  by (simp add: stripWhatif_append stripWhatif_fixed stripWhatif_not_endsWith)

text \<open>
  C1. When the tree's entry for a path carries the non-empty source label \<open>S\<close>, a
  \<^verbatim>\<open>setValue\<close> without explicit source that hands its delta to the host hands over
  exactly one delta of one update for that path and value, whose \<^verbatim>\<open>$source\<close> is \<open>S\<close> with
  every trailing \<^verbatim>\<open>.whatif-helper\<close> stripped, followed by one \<^verbatim>\<open>.whatif-helper\<close>; the
  stripped part no longer ends in the suffix and differs from \<open>S\<close> by copies of the suffix
  only. Injecting over an entry whose source is a label so produced submits that same
  label again. When the read throws, or the entry has no source (absent or the empty
  string, which JavaScript treats as absent), the \<^verbatim>\<open>$source\<close> submitted is
  \<^verbatim>\<open>whatif-helper\<close>.
\<close>

theorem setValue_source_label:
  "(getSelfPath a path = Inr d \<and> sourceOf d = JStr S \<and> S \<noteq> []
      \<and> fst (setValue pm path v None now a) = Fulfilled () \<longrightarrow>
      submitted (snd (setValue pm path v None now a)) =
        submitted a @
          [(''signalk-whatif-helper'',
            \<lparr>d_context = selfContext pm,
             d_updates = [\<lparr>u_source = stripWhatif S @ ''.whatif-helper'', u_timestamp = now,
                           u_values = Some [\<lparr>pv_path = path, pv_value = v\<rparr>], u_meta = None\<rparr>]\<rparr>)]
      \<and> \<not> endsWith (stripWhatif S) ''.whatif-helper''
      \<and> (\<exists>n. S = stripWhatif S @ concat (replicate n ''.whatif-helper'')))
   \<and> (getSelfPath a' path' = Inr d' \<and> sourceOf d' = JStr (stripWhatif S' @ ''.whatif-helper'')
      \<and> fst (setValue pm' path' v' None now' a') = Fulfilled () \<longrightarrow>
      submitted (snd (setValue pm' path' v' None now' a')) =
        submitted a' @
          [(''signalk-whatif-helper'',
            \<lparr>d_context = selfContext pm',
             d_updates = [\<lparr>u_source = stripWhatif S' @ ''.whatif-helper'', u_timestamp = now',
                           u_values = Some [\<lparr>pv_path = path', pv_value = v'\<rparr>], u_meta = None\<rparr>]\<rparr>)])
   \<and> ((getSelfPath b q = Inl e \<or> (getSelfPath b q = Inr c \<and> \<not> truthy (sourceOf c)))
      \<and> fst (setValue pm0 q w None t b) = Fulfilled () \<longrightarrow>
      submitted (snd (setValue pm0 q w None t b)) =
        submitted b @
          [(''signalk-whatif-helper'',
            \<lparr>d_context = selfContext pm0,
             d_updates = [\<lparr>u_source = ''whatif-helper'', u_timestamp = t,
                           u_values = Some [\<lparr>pv_path = q, pv_value = w\<rparr>], u_meta = None\<rparr>]\<rparr>)])"
proof (intro conjI impI)
  assume h: "getSelfPath a path = Inr d \<and> sourceOf d = JStr S \<and> S \<noteq> []
      \<and> fst (setValue pm path v None now a) = Fulfilled ()"
  then have l: "storedLabel a path None = stripWhatif S @ whatifSuffix"
    using storedLabel_present [of a path d S] by simp
  from h have "submitted (snd (setValue pm path v None now a)) =
      submitted a @ [(PLUGIN_ID, mkDelta (selfContext pm) (storedLabel a path None) now path v)]"
    using setValue_submitted by blast
  then show "submitted (snd (setValue pm path v None now a)) =
        submitted a @
          [(''signalk-whatif-helper'',
            \<lparr>d_context = selfContext pm,
             d_updates = [\<lparr>u_source = stripWhatif S @ ''.whatif-helper'', u_timestamp = now,
                           u_values = Some [\<lparr>pv_path = path, pv_value = v\<rparr>], u_meta = None\<rparr>]\<rparr>)]"
    unfolding l by (simp add: PLUGIN_ID_def mkDelta_def whatifSuffix_def SOURCE_LABEL_def)
  show "\<not> endsWith (stripWhatif S) ''.whatif-helper''"
    using stripWhatif_not_endsWith [of S] by (simp add: whatifSuffix_def SOURCE_LABEL_def)
  show "\<exists>n. S = stripWhatif S @ concat (replicate n ''.whatif-helper'')"
    using stripWhatif_decompose [of S] by (simp add: whatifSuffix_def SOURCE_LABEL_def)
next
  assume h: "getSelfPath a' path' = Inr d' \<and> sourceOf d' = JStr (stripWhatif S' @ ''.whatif-helper'')
      \<and> fst (setValue pm' path' v' None now' a') = Fulfilled ()"
  then have s: "sourceOf d' = JStr (stripWhatif S' @ whatifSuffix)"
    by (simp add: whatifSuffix_def SOURCE_LABEL_def)
  have "stripWhatif S' @ whatifSuffix \<noteq> []"
    by (simp add: whatifSuffix_def)
  with h s have l: "storedLabel a' path' None = stripWhatif S' @ whatifSuffix"
    using storedLabel_present [of a' path' d' "stripWhatif S' @ whatifSuffix"]
    by (simp add: stripWhatif_label)
  from h have "submitted (snd (setValue pm' path' v' None now' a')) =
      submitted a' @ [(PLUGIN_ID, mkDelta (selfContext pm') (storedLabel a' path' None) now' path' v')]"
    using setValue_submitted by blast
  then show "submitted (snd (setValue pm' path' v' None now' a')) =
        submitted a' @
          [(''signalk-whatif-helper'',
            \<lparr>d_context = selfContext pm',
             d_updates = [\<lparr>u_source = stripWhatif S' @ ''.whatif-helper'', u_timestamp = now',
                           u_values = Some [\<lparr>pv_path = path', pv_value = v'\<rparr>], u_meta = None\<rparr>]\<rparr>)]"
    unfolding l by (simp add: PLUGIN_ID_def mkDelta_def whatifSuffix_def SOURCE_LABEL_def)
next
  assume h: "(getSelfPath b q = Inl e \<or> (getSelfPath b q = Inr c \<and> \<not> truthy (sourceOf c)))
      \<and> fst (setValue pm0 q w None t b) = Fulfilled ()"
  then have l: "storedLabel b q None = SOURCE_LABEL"
    using storedLabel_absent [of b q e c] by blast
  from h have "submitted (snd (setValue pm0 q w None t b)) =
      submitted b @ [(PLUGIN_ID, mkDelta (selfContext pm0) (storedLabel b q None) t q w)]"
    using setValue_submitted by blast
  then show "submitted (snd (setValue pm0 q w None t b)) =
        submitted b @
          [(''signalk-whatif-helper'',
            \<lparr>d_context = selfContext pm0,
             d_updates = [\<lparr>u_source = ''whatif-helper'', u_timestamp = t,
                           u_values = Some [\<lparr>pv_path = q, pv_value = w\<rparr>], u_meta = None\<rparr>]\<rparr>)]"
    unfolding l by (simp add: PLUGIN_ID_def mkDelta_def SOURCE_LABEL_def)
qed

lemma stripWhatif_n2k: "stripWhatif ''n2k-01'' = ''n2k-01''"
  by (rule stripWhatif_fixed) (simp add: endsWith_def whatifSuffix_def SOURCE_LABEL_def)

lemma demo_fulfilled: "fst (setValue pm path v src now (hostWith d)) = Fulfilled ()"
  by (simp add: setValue_def handleMessage_def debug_def hostWith_def Let_def split: prod.splits)

theorem setValue_source_label_witness:
  "submitted (snd (setValue newPathManager ''navigation.speedOverGround'' (JNum 5) None ''t1''
      (hostWith (JObj [(''value'', JNum 1), (''$source'', JStr ''n2k-01'')]))))
     = [(''signalk-whatif-helper'',
         \<lparr>d_context = ''vessels.self'',
          d_updates = [\<lparr>u_source = ''n2k-01.whatif-helper'', u_timestamp = ''t1'',
                        u_values = Some [\<lparr>pv_path = ''navigation.speedOverGround'', pv_value = JNum 5\<rparr>],
                        u_meta = None\<rparr>]\<rparr>)]
   \<and> submitted (snd (setValue newPathManager ''navigation.speedOverGround'' (JNum 6) None ''t2''
      (hostWith (JObj [(''value'', JNum 5), (''$source'', JStr ''n2k-01.whatif-helper'')]))))
     = [(''signalk-whatif-helper'',
         \<lparr>d_context = ''vessels.self'',
          d_updates = [\<lparr>u_source = ''n2k-01.whatif-helper'', u_timestamp = ''t2'',
                        u_values = Some [\<lparr>pv_path = ''navigation.speedOverGround'', pv_value = JNum 6\<rparr>],
                        u_meta = None\<rparr>]\<rparr>)]
   \<and> submitted (snd (setValue newPathManager ''a.b'' (JNum 7) None ''t3''
      (hostWith (JObj [(''value'', JNum 3)]))))
     = [(''signalk-whatif-helper'',
         \<lparr>d_context = ''vessels.self'',
          d_updates = [\<lparr>u_source = ''whatif-helper'', u_timestamp = ''t3'',
                        u_values = Some [\<lparr>pv_path = ''a.b'', pv_value = JNum 7\<rparr>],
                        u_meta = None\<rparr>]\<rparr>)]"
proof -
  let ?d = "JObj [(''value'', JNum 1), (''$source'', JStr ''n2k-01'')]"
  let ?d' = "JObj [(''value'', JNum 5), (''$source'', JStr ''n2k-01.whatif-helper'')]"
  let ?c = "JObj [(''value'', JNum 3)]"
  let ?p = "''navigation.speedOverGround''"
  note t = setValue_source_label
    [of "hostWith ?d" ?p ?d "''n2k-01''" newPathManager "JNum 5" "''t1''"
        "hostWith ?d'" ?p ?d' "''n2k-01''" newPathManager "JNum 6" "''t2''"
        "hostWith ?c" "''a.b''" OtherThrown ?c newPathManager "JNum 7" "''t3''"]
  have h1: "getSelfPath (hostWith ?d) ?p = Inr ?d \<and> sourceOf ?d = JStr ''n2k-01'' \<and> ''n2k-01'' \<noteq> []
      \<and> fst (setValue newPathManager ?p (JNum 5) None ''t1'' (hostWith ?d)) = Fulfilled ()"
    by (simp add: demo_fulfilled) (simp add: hostWith_def sourceOf_def js_or_def)
  have h2: "getSelfPath (hostWith ?d') ?p = Inr ?d'
      \<and> sourceOf ?d' = JStr (stripWhatif ''n2k-01'' @ ''.whatif-helper'')
      \<and> fst (setValue newPathManager ?p (JNum 6) None ''t2'' (hostWith ?d')) = Fulfilled ()"
    by (simp add: demo_fulfilled stripWhatif_n2k) (simp add: hostWith_def sourceOf_def js_or_def)
  have h3: "(getSelfPath (hostWith ?c) ''a.b'' = Inl OtherThrown
        \<or> (getSelfPath (hostWith ?c) ''a.b'' = Inr ?c \<and> \<not> truthy (sourceOf ?c)))
      \<and> fst (setValue newPathManager ''a.b'' (JNum 7) None ''t3'' (hostWith ?c)) = Fulfilled ()"
    by (simp add: demo_fulfilled) (simp add: hostWith_def sourceOf_def js_or_def)
  have s: "submitted (hostWith x) = []" "selfContext newPathManager = ''vessels.self''" for x
    by (simp_all add: hostWith_def newPathManager_def)
  from t h1 have c1: "submitted (snd (setValue newPathManager ?p (JNum 5) None ''t1'' (hostWith ?d))) =
        submitted (hostWith ?d) @
          [(''signalk-whatif-helper'',
            \<lparr>d_context = selfContext newPathManager,
             d_updates = [\<lparr>u_source = stripWhatif ''n2k-01'' @ ''.whatif-helper'', u_timestamp = ''t1'',
                           u_values = Some [\<lparr>pv_path = ?p, pv_value = JNum 5\<rparr>], u_meta = None\<rparr>]\<rparr>)]"
    by blast
  from t h2 have c2: "submitted (snd (setValue newPathManager ?p (JNum 6) None ''t2'' (hostWith ?d'))) =
        submitted (hostWith ?d') @
          [(''signalk-whatif-helper'',
            \<lparr>d_context = selfContext newPathManager,
             d_updates = [\<lparr>u_source = stripWhatif ''n2k-01'' @ ''.whatif-helper'', u_timestamp = ''t2'',
                           u_values = Some [\<lparr>pv_path = ?p, pv_value = JNum 6\<rparr>], u_meta = None\<rparr>]\<rparr>)]"
    by blast
  from t h3 have c3: "submitted (snd (setValue newPathManager ''a.b'' (JNum 7) None ''t3'' (hostWith ?c))) =
        submitted (hostWith ?c) @
          [(''signalk-whatif-helper'',
            \<lparr>d_context = selfContext newPathManager,
             d_updates = [\<lparr>u_source = ''whatif-helper'', u_timestamp = ''t3'',
                           u_values = Some [\<lparr>pv_path = ''a.b'', pv_value = JNum 7\<rparr>], u_meta = None\<rparr>]\<rparr>)]"
    by blast
  from c1 c2 c3 show ?thesis
    unfolding s stripWhatif_n2k by simp
qed

section \<open>PUT handler registrations\<close>

lemma keysOK_iff:
  "keysOK m \<longleftrightarrow>
     distinct (map fst (handlers m))
     \<and> distinct (map fst (unregisterFunctions m))
     \<and> dom (map_of (handlers m)) = dom (map_of (unregisterFunctions m))
     \<and> (\<forall>p i. map_of (handlers m) p = Some i \<longrightarrow> h_path i = p)"
proof -
  have "list_all (\<lambda>kv. h_path (snd kv) = fst kv) (handlers m) \<longleftrightarrow>
      (\<forall>p i. map_of (handlers m) p = Some i \<longrightarrow> h_path i = p)"
    if "distinct (map fst (handlers m))"
    using that by (auto simp: list_all_iff)
  then show ?thesis
    unfolding keysOK_def dom_map_of_conv_image_fst by auto
qed

lemma registerHandler_known:
  "map_of (handlers m) path = Some i \<Longrightarrow>
   registerHandler path options now (m, a) = (None, m, debug (LogAlreadyRegistered path) a)"
  by (simp add: registerHandler_def)

lemma registerHandler_throws:
  "map_of (handlers m) path = None \<Longrightarrow> registerPutThrows a path = Some e \<Longrightarrow>
   registerHandler path options now (m, a) = (Some e, m, debug (LogRegistering path) a)"
  by (simp add: registerHandler_def registerPutHandler_def debug_def)

lemma registerHandler_new:
  "map_of (handlers m) path = None \<Longrightarrow> registerPutThrows a path = None \<Longrightarrow>
   registerHandler path options now (m, a) =
     (None,
      m\<lparr>handlers := AList.update path
            \<lparr>h_path = path, registeredAt = now,
             acceptAllSources = (case o_acceptAllSources options of Some b \<Rightarrow> b | None \<Rightarrow> False)\<rparr>
            (handlers m),
        unregisterFunctions := AList.update path (nextCap a) (unregisterFunctions m)\<rparr>,
      a\<lparr>debugLog := debugLog a @ [LogRegistering path],
        installed := installed a @ [(nextCap a, ''vessels.self'', path,
           if o_acceptAllSources options = Some True then None else Some SOURCE_LABEL)],
        nextCap := Suc (nextCap a)\<rparr>)"
  by (simp add: registerHandler_def registerPutHandler_def debug_def)

lemma hostOK_debug [simp]: "hostOK m (debug l a) = hostOK m a"
  by (simp add: hostOK_def debug_def)

lemma keysOK_update:
  assumes "keysOK m"
  shows "keysOK (m\<lparr>handlers := AList.update p \<lparr>h_path = p, registeredAt = now, acceptAllSources = b\<rparr> (handlers m),
                  unregisterFunctions := AList.update p cap (unregisterFunctions m)\<rparr>)"
  using assms
  by (auto simp: keysOK_iff distinct_update update_conv' simp del: map_of_eq_Some_iff)

lemma hostOK_update:
  assumes "hostOK m a" and "map_of (unregisterFunctions m) p = None"
  shows "hostOK (m\<lparr>handlers := hs, unregisterFunctions := AList.update p (nextCap a) (unregisterFunctions m)\<rparr>)
           (a\<lparr>debugLog := l, installed := installed a @ [(nextCap a, ctx, p, src)], nextCap := Suc (nextCap a)\<rparr>)"
proof -
  have d: "distinct (map fst (installed a))"
    and lt: "\<And>e. e \<in> set (installed a) \<Longrightarrow> fst e < nextCap a"
    and own: "\<And>e. e \<in> set (installed a) \<Longrightarrow> map_of (unregisterFunctions m) (fst (snd (snd e))) = Some (fst e)"
    and bk: "\<And>q cap. map_of (unregisterFunctions m) q = Some cap \<Longrightarrow> \<exists>ctx src. (cap, ctx, q, src) \<in> set (installed a)"
    using assms(1) by (auto simp: hostOK_def simp del: map_of_eq_Some_iff)
  have fresh: "nextCap a \<notin> fst ` set (installed a)"
    using lt by fastforce
  have other: "\<And>e. e \<in> set (installed a) \<Longrightarrow> fst (snd (snd e)) \<noteq> p"
    using own assms(2) by fastforce
  show ?thesis
    unfolding hostOK_def
    using d fresh lt own other bk
    by (auto simp: update_conv' less_SucI simp del: map_of_eq_Some_iff)
qed

lemma unregisterHandler_unknown:
  "map_of (unregisterFunctions m) path = None \<Longrightarrow> unregisterHandler path (m, a) = (False, m, a)"
  by (simp add: unregisterHandler_def)

lemma unregisterHandler_known:
  "map_of (unregisterFunctions m) path = Some cap \<Longrightarrow>
   unregisterHandler path (m, a) =
     (True,
      m\<lparr>handlers := AList.delete path (handlers m),
        unregisterFunctions := AList.delete path (unregisterFunctions m)\<rparr>,
      a\<lparr>debugLog := debugLog a @ [LogUnregistering path],
        installed := filter (\<lambda>e. fst e \<noteq> cap) (installed a)\<rparr>)"
  by (simp add: unregisterHandler_def debug_def callUnregister_def)

lemma keysOK_delete:
  assumes "keysOK m"
  shows "keysOK (m\<lparr>handlers := AList.delete p (handlers m),
                  unregisterFunctions := AList.delete p (unregisterFunctions m)\<rparr>)"
  using assms
  by (auto simp: keysOK_iff distinct_delete delete_conv' simp del: map_of_eq_Some_iff)

lemma hostOK_delete:
  assumes "hostOK m a" and "map_of (unregisterFunctions m) p = Some cap"
  shows "hostOK (m\<lparr>handlers := hs, unregisterFunctions := AList.delete p (unregisterFunctions m)\<rparr>)
           (a\<lparr>debugLog := l, installed := filter (\<lambda>e. fst e \<noteq> cap) (installed a)\<rparr>)"
proof -
  have d: "distinct (map fst (installed a))"
    and lt: "\<And>e. e \<in> set (installed a) \<Longrightarrow> fst e < nextCap a"
    and own: "\<And>e. e \<in> set (installed a) \<Longrightarrow> map_of (unregisterFunctions m) (fst (snd (snd e))) = Some (fst e)"
    and bk: "\<And>q cap. map_of (unregisterFunctions m) q = Some cap \<Longrightarrow> \<exists>ctx src. (cap, ctx, q, src) \<in> set (installed a)"
    using assms(1) by (auto simp: hostOK_def simp del: map_of_eq_Some_iff)
  have other: "\<And>e. e \<in> set (installed a) \<Longrightarrow> fst e \<noteq> cap \<Longrightarrow> fst (snd (snd e)) \<noteq> p"
    using own assms(2) by fastforce
  have uniq: "\<And>q c. q \<noteq> p \<Longrightarrow> map_of (unregisterFunctions m) q = Some c \<Longrightarrow> c \<noteq> cap"
  proof
    fix q c assume q: "q \<noteq> p" and c: "map_of (unregisterFunctions m) q = Some c" and e: "c = cap"
    from bk [OF c] obtain ctx src where j: "(c, ctx, q, src) \<in> set (installed a)" by blast
    from bk [OF assms(2)] obtain ctx' src' where i: "(cap, ctx', p, src') \<in> set (installed a)" by blast
    from j i d e have "(c, ctx, q, src) = (cap, ctx', p, src')"
      by (metis eq_key_imp_eq_value)
    with q show False by simp
  qed
  show ?thesis
    unfolding hostOK_def
    using d lt own other bk uniq
    by (auto simp: delete_conv' distinct_map_filter simp del: map_of_eq_Some_iff)
qed

lemma putInv_register: "putInv st \<Longrightarrow> putInv (snd (registerHandler path options now st))"
proof -
  assume inv: "putInv st"
  obtain m a where st: "st = (m, a)" by (cases st)
  from inv have k: "keysOK m" and h: "hostOK m a"
    by (simp_all add: putInv_def st)
  show ?thesis
  proof (cases "map_of (handlers m) path")
    case (Some i)
    with k h show ?thesis
      by (simp add: st registerHandler_known putInv_def)
  next
    case None
    then have nu: "map_of (unregisterFunctions m) path = None"
      using k by (auto simp: keysOK_iff simp del: map_of_eq_Some_iff)
    show ?thesis
    proof (cases "registerPutThrows a path")
      case (Some e)
      with None k h show ?thesis
        by (simp add: st registerHandler_throws putInv_def)
    next
      case n: None
      from None n k h nu show ?thesis
        by (simp add: st registerHandler_new putInv_def keysOK_update hostOK_update)
    qed
  qed
qed

lemma putInv_unregister: "putInv st \<Longrightarrow> putInv (snd (unregisterHandler path st))"
proof -
  assume inv: "putInv st"
  obtain m a where st: "st = (m, a)" by (cases st)
  from inv have k: "keysOK m" and h: "hostOK m a"
    by (simp_all add: putInv_def st)
  show ?thesis
  proof (cases "map_of (unregisterFunctions m) path")
    case None
    with k h show ?thesis
      by (simp add: st unregisterHandler_unknown putInv_def)
  next
    case (Some cap)
    with k h show ?thesis
      by (simp add: st unregisterHandler_known putInv_def keysOK_delete hostOK_delete)
  qed
qed

lemma putInv_foldl_unregister:
  "putInv st \<Longrightarrow> putInv (foldl (\<lambda>s path. snd (unregisterHandler path s)) st ps)"
  by (induction ps arbitrary: st) (simp_all add: putInv_unregister)

lemma putInv_unregisterAll: "putInv st \<Longrightarrow> putInv (unregisterAll st)"
  by (simp add: unregisterAll_def putInv_foldl_unregister)

lemma putInv_step: "putInv st \<Longrightarrow> putInv (putStep st c)"
  by (cases c) (simp_all add: putInv_register putInv_unregister putInv_unregisterAll)

lemma putInv_run: "putInv st \<Longrightarrow> putInv (putRun calls st)"
  unfolding putRun_def by (induction calls arbitrary: st) (simp_all add: putInv_step)

lemma putInv_initial: "installed a = [] \<Longrightarrow> putInv (newPutHandlerManager, a)"
  by (simp add: putInv_def keysOK_iff hostOK_def newPutHandlerManager_def)

lemma activeFor_le_one:
  assumes "hostOK m a"
  shows "length (activeFor a p) = (if map_of (unregisterFunctions m) p = None then 0 else 1)"
proof -
  have d: "distinct (map fst (installed a))"
    and own: "\<And>e. e \<in> set (installed a) \<Longrightarrow> map_of (unregisterFunctions m) (fst (snd (snd e))) = Some (fst e)"
    and bk: "\<And>q cap. map_of (unregisterFunctions m) q = Some cap \<Longrightarrow> \<exists>ctx src. (cap, ctx, q, src) \<in> set (installed a)"
    using assms(1) by (auto simp: hostOK_def simp del: map_of_eq_Some_iff)
  show ?thesis
  proof (cases "map_of (unregisterFunctions m) p")
    case None
    then have "activeFor a p = []"
      using own by (fastforce simp: activeFor_def filter_empty_conv)
    with None show ?thesis by simp
  next
    case (Some cap)
    have dd: "distinct (map fst (activeFor a p))"
      using d by (simp add: activeFor_def distinct_map_filter)
    have "set (map fst (activeFor a p)) \<subseteq> {cap}"
      using own Some by (fastforce simp: activeFor_def)
    then have "card (set (map fst (activeFor a p))) \<le> 1"
      by (metis card_mono finite.emptyI finite.insertI card_1_singleton_iff One_nat_def
          is_singletonI is_singleton_altdef)
    then have le: "length (activeFor a p) \<le> 1"
      using distinct_card [OF dd] by simp
    from bk [OF Some] obtain ctx src where "(cap, ctx, p, src) \<in> set (installed a)" by blast
    then have "(cap, ctx, p, src) \<in> set (activeFor a p)"
      by (simp add: activeFor_def)
    then have "activeFor a p \<noteq> []" by auto
    with le Some show ?thesis
      by (cases "activeFor a p") auto
  qed
qed

lemma keysOK_has_iff: "keysOK m \<Longrightarrow> hasPutHandler m p \<longleftrightarrow> map_of (unregisterFunctions m) p \<noteq> None"
  by (auto simp: keysOK_iff hasPutHandler_def simp del: map_of_eq_Some_iff)

lemma filter_key_le_one:
  "distinct (map fst xs) \<Longrightarrow> length (filter (\<lambda>kv. fst kv = p) xs) \<le> 1"
proof (induction xs)
  case Nil
  then show ?case by simp
next
  case (Cons x xs)
  show ?case
  proof (cases "fst x = p")
    case True
    with Cons.prems have "filter (\<lambda>kv. fst kv = p) xs = []"
      by (auto simp: filter_empty_conv) (metis fst_conv imageI)
    with True show ?thesis by simp
  next
    case False
    with Cons show ?thesis by simp
  qed
qed

text \<open>
  C2. After any run of \<^verbatim>\<open>registerHandler\<close>, \<^verbatim>\<open>unregisterHandler\<close> and \<^verbatim>\<open>unregisterAll\<close>
  calls from the start, the host holds exactly one handler of the manager for a path
  that \<^verbatim>\<open>hasPutHandler\<close> reports and none for any other, and the manager holds at most
  one registration per path. Registering a path that is registered throws nothing,
  writes one debug line and changes nothing else: the manager, with the stored
  \<^verbatim>\<open>registeredAt\<close> and \<^verbatim>\<open>acceptAllSources\<close>, and the host's table stay as they were.
\<close>

theorem registerHandler_at_most_one:
  assumes "installed a0 = []" and "st = putRun calls (newPutHandlerManager, a0)"
  shows "length (activeFor (snd st) p) = (if hasPutHandler (fst st) p then 1 else 0)
    \<and> length (filter (\<lambda>kv. fst kv = p) (handlers (fst st))) \<le> 1
    \<and> (hasPutHandler (fst st) p \<longrightarrow>
         registerHandler p options now st = (None, fst st, debug (LogAlreadyRegistered p) (snd st))
         \<and> getHandler (fst (snd (registerHandler p options now st))) p = getHandler (fst st) p)"
proof -
  have inv: "putInv st"
    using assms by (simp add: putInv_run putInv_initial)
  then have k: "keysOK (fst st)" and h: "hostOK (fst st) (snd st)"
    by (simp_all add: putInv_def)
  have 1: "length (activeFor (snd st) p) = (if hasPutHandler (fst st) p then 1 else 0)"
    using activeFor_le_one [OF h, of p] keysOK_has_iff [OF k, of p] by simp
  have 2: "length (filter (\<lambda>kv. fst kv = p) (handlers (fst st))) \<le> 1"
    using k filter_key_le_one [of "handlers (fst st)" p] by (simp add: keysOK_iff)
  have 3: "registerHandler p options now st = (None, fst st, debug (LogAlreadyRegistered p) (snd st))"
    if "hasPutHandler (fst st) p"
    using that registerHandler_known [of "fst st" p _ options now "snd st"]
    by (auto simp: hasPutHandler_def simp del: map_of_eq_Some_iff)
  from 1 2 3 show ?thesis by simp
qed

text \<open>
  C8. In a state reached by calls of the manager, \<^verbatim>\<open>unregisterHandler(p)\<close> for a path
  without registration returns false and changes neither the manager nor the host; for
  a registered path it returns true, the host's handler for \<open>p\<close> is removed, both maps
  lose \<open>p\<close>, and every other path keeps its registration and its handler.
\<close>

theorem unregisterHandler_result:
  assumes "installed a0 = []" and "st = putRun calls (newPutHandlerManager, a0)"
  shows "(\<not> hasPutHandler (fst st) p \<longrightarrow> unregisterHandler p st = (False, fst st, snd st))
    \<and> (hasPutHandler (fst st) p \<longrightarrow>
         fst (unregisterHandler p st) = True
         \<and> getHandler (fst (snd (unregisterHandler p st))) p = None
         \<and> map_of (unregisterFunctions (fst (snd (unregisterHandler p st)))) p = None
         \<and> activeFor (snd (snd (unregisterHandler p st))) p = []
         \<and> (\<forall>q. q \<noteq> p \<longrightarrow>
               getHandler (fst (snd (unregisterHandler p st))) q = getHandler (fst st) q
               \<and> map_of (unregisterFunctions (fst (snd (unregisterHandler p st)))) q
                   = map_of (unregisterFunctions (fst st)) q
               \<and> activeFor (snd (snd (unregisterHandler p st))) q = activeFor (snd st) q))"
proof -
  obtain m a where st: "st = (m, a)" by (cases st)
  have inv: "putInv st"
    using assms by (simp add: putInv_run putInv_initial)
  then have k: "keysOK m" and h: "hostOK m a"
    by (simp_all add: putInv_def st)
  have own: "\<And>e. e \<in> set (installed a) \<Longrightarrow> map_of (unregisterFunctions m) (fst (snd (snd e))) = Some (fst e)"
    using h by (auto simp: hostOK_def simp del: map_of_eq_Some_iff)
  show ?thesis
  proof (cases "map_of (unregisterFunctions m) p")
    case None
    then have "\<not> hasPutHandler m p"
      using keysOK_has_iff [OF k] by simp
    with None show ?thesis
      by (simp add: st unregisterHandler_unknown)
  next
    case (Some cap)
    then have has: "hasPutHandler m p"
      using keysOK_has_iff [OF k] by simp
    have gone: "filter (\<lambda>e. fst (snd (snd e)) = p) (filter (\<lambda>e. fst e \<noteq> cap) (installed a)) = []"
      using own Some by (fastforce simp: filter_empty_conv)
    have kept: "filter (\<lambda>e. fst (snd (snd e)) = q) (filter (\<lambda>e. fst e \<noteq> cap) (installed a))
        = filter (\<lambda>e. fst (snd (snd e)) = q) (installed a)" if "q \<noteq> p" for q
    proof -
      have "\<And>e. e \<in> set (installed a) \<Longrightarrow> fst (snd (snd e)) = q \<Longrightarrow> fst e \<noteq> cap"
      proof
        fix e assume e: "e \<in> set (installed a)" "fst (snd (snd e)) = q" "fst e = cap"
        have "\<exists>ctx src. (cap, ctx, p, src) \<in> set (installed a)"
          using h Some unfolding hostOK_def by blast
        then obtain ctx src where i: "(cap, ctx, p, src) \<in> set (installed a)"
          by blast
        have "distinct (map fst (installed a))"
          using h by (simp add: hostOK_def)
        with e i have "e = (cap, ctx, p, src)"
          by (metis eq_key_imp_eq_value prod.collapse)
        with e that show False by simp
      qed
      then show ?thesis
        by (auto simp: filter_eq_iff intro!: filter_cong)
    qed
    from has Some gone kept show ?thesis
      by (simp add: st unregisterHandler_known getHandler_def delete_conv' activeFor_def)
  qed
qed

lemma keysOK_register: "keysOK m \<Longrightarrow> keysOK (fst (snd (registerHandler p options now (m, a))))"
proof -
  assume k: "keysOK m"
  show ?thesis
  proof (cases "map_of (handlers m) p")
    case (Some i)
    with k show ?thesis by (simp add: registerHandler_known)
  next
    case None
    show ?thesis
    proof (cases "registerPutThrows a p")
      case (Some e)
      with None k show ?thesis by (simp add: registerHandler_throws)
    next
      case n: None
      with None k show ?thesis by (simp add: registerHandler_new keysOK_update)
    qed
  qed
qed

lemma keysOK_unregister: "keysOK m \<Longrightarrow> keysOK (fst (snd (unregisterHandler p (m, a))))"
  by (cases "map_of (unregisterFunctions m) p")
     (simp_all add: unregisterHandler_unknown unregisterHandler_known keysOK_delete)

lemma unregister_dom:
  assumes "keysOK m"
  shows "dom (map_of (handlers (fst (snd (unregisterHandler p (m, a)))))) = dom (map_of (handlers m)) - {p}"
proof (cases "map_of (unregisterFunctions m) p")
  case None
  then have "p \<notin> dom (map_of (handlers m))"
    using assms by (auto simp: keysOK_iff simp del: map_of_eq_Some_iff)
  with None show ?thesis
    by (simp add: unregisterHandler_unknown)
next
  case (Some cap)
  then show ?thesis
    by (simp add: unregisterHandler_known delete_conv')
qed

lemma foldl_unregister_keys:
  "keysOK (fst st) \<Longrightarrow>
   keysOK (fst (foldl (\<lambda>s path. snd (unregisterHandler path s)) st ps))
   \<and> dom (map_of (handlers (fst (foldl (\<lambda>s path. snd (unregisterHandler path s)) st ps))))
       = dom (map_of (handlers (fst st))) - set ps"
proof (induction ps arbitrary: st)
  case Nil
  then show ?case by simp
next
  case (Cons p ps)
  obtain m a where st: "st = (m, a)" by (cases st)
  from Cons.prems have k: "keysOK m" by (simp add: st)
  have k': "keysOK (fst (snd (unregisterHandler p st)))"
    using k by (simp add: st keysOK_unregister)
  from Cons.IH [OF k'] unregister_dom [OF k, of p a] show ?case
    by (auto simp: st)
qed

lemma unregisterAll_empty:
  assumes "keysOK m"
  shows "handlers (fst (unregisterAll (m, a))) = []"
    and "unregisterFunctions (fst (unregisterAll (m, a))) = []"
    and "keysOK (fst (unregisterAll (m, a)))"
proof -
  let ?m' = "fst (unregisterAll (m, a))"
  have k: "keysOK ?m'" and d: "dom (map_of (handlers ?m')) = dom (map_of (handlers m)) - set (map fst (handlers m))"
    using foldl_unregister_keys [of "(m, a)" "map fst (handlers m)"] assms
    by (simp_all add: unregisterAll_def)
  have e: "dom (map_of (handlers ?m')) = {}"
    unfolding d by (simp add: dom_map_of_conv_image_fst)
  then show "handlers ?m' = []"
    by (metis dom_eq_empty_conv map_of_eq_empty_iff)
  from e k have "dom (map_of (unregisterFunctions ?m')) = {}"
    by (simp add: keysOK_iff)
  then show "unregisterFunctions ?m' = []"
    by (metis dom_eq_empty_conv map_of_eq_empty_iff)
  show "keysOK ?m'" by (rule k)
qed

lemma keysOK_paths:
  assumes "keysOK m"
  shows "hasPutHandler m p \<longleftrightarrow> p \<in> set (map h_path (getHandlers m))"
proof
  assume "hasPutHandler m p"
  then obtain i where i: "map_of (handlers m) p = Some i"
    by (auto simp: hasPutHandler_def simp del: map_of_eq_Some_iff)
  then have "h_path i = p"
    using assms unfolding keysOK_iff by blast
  moreover have "(p, i) \<in> set (handlers m)"
    using i by (rule map_of_SomeD)
  ultimately show "p \<in> set (map h_path (getHandlers m))"
    by (force simp: getHandlers_def)
next
  assume "p \<in> set (map h_path (getHandlers m))"
  then obtain k i where ki: "(k, i) \<in> set (handlers m)" and hp: "h_path i = p"
    by (auto simp: getHandlers_def)
  have "distinct (map fst (handlers m))"
    using assms by (simp add: keysOK_iff)
  with ki have m: "map_of (handlers m) k = Some i"
    by simp
  then have "h_path i = k"
    using assms unfolding keysOK_iff by blast
  with hp m show "hasPutHandler m p"
    by (simp add: hasPutHandler_def del: map_of_eq_Some_iff)
qed

text \<open>
  C9. The invariant \<open>keysOK\<close> holds of the new manager and of every state a run of calls
  reaches, and each of \<^verbatim>\<open>registerHandler\<close>, \<^verbatim>\<open>unregisterHandler\<close> and \<^verbatim>\<open>unregisterAll\<close>
  preserves it. Under it the two maps have the same keys, and \<^verbatim>\<open>hasPutHandler(p)\<close>,
  \<^verbatim>\<open>getHandler(p)\<close> being defined and \<open>p\<close> being the path of a member of
  \<^verbatim>\<open>getHandlers()\<close> are equivalent; \<^verbatim>\<open>unregisterAll\<close> leaves both maps empty, and on the
  new manager it changes nothing.
\<close>

theorem handler_maps_invariant:
  "keysOK newPutHandlerManager
   \<and> keysOK (fst (putRun calls (newPutHandlerManager, a0)))
   \<and> unregisterAll (newPutHandlerManager, a0) = (newPutHandlerManager, a0)
   \<and> (keysOK m \<longrightarrow>
        keysOK (fst (snd (registerHandler p options now (m, a))))
        \<and> keysOK (fst (snd (unregisterHandler p (m, a))))
        \<and> keysOK (fst (unregisterAll (m, a)))
        \<and> set (map fst (handlers m)) = set (map fst (unregisterFunctions m))
        \<and> (hasPutHandler m p \<longleftrightarrow> getHandler m p \<noteq> None)
        \<and> (hasPutHandler m p \<longleftrightarrow> p \<in> set (map h_path (getHandlers m)))
        \<and> handlers (fst (unregisterAll (m, a))) = []
        \<and> unregisterFunctions (fst (unregisterAll (m, a))) = [])"
proof (intro conjI impI)
  show k0: "keysOK newPutHandlerManager"
    by (simp add: keysOK_iff newPutHandlerManager_def)
  have step: "keysOK (fst st) \<Longrightarrow> keysOK (fst (putStep st c))" for st c
    by (cases st; cases c) (simp_all add: keysOK_register keysOK_unregister unregisterAll_empty(3))
  have "keysOK (fst st) \<Longrightarrow> keysOK (fst (foldl putStep st calls))" for st
    by (induction calls arbitrary: st) (simp_all add: step)
  from this [of "(newPutHandlerManager, a0)"] k0
  show "keysOK (fst (putRun calls (newPutHandlerManager, a0)))"
    by (simp add: putRun_def)
  show "unregisterAll (newPutHandlerManager, a0) = (newPutHandlerManager, a0)"
    by (simp add: unregisterAll_def newPutHandlerManager_def)
next
  assume k: "keysOK m"
  show "keysOK (fst (snd (registerHandler p options now (m, a))))"
    using k by (rule keysOK_register)
  show "keysOK (fst (snd (unregisterHandler p (m, a))))"
    using k by (rule keysOK_unregister)
  show "keysOK (fst (unregisterAll (m, a)))"
    using k by (rule unregisterAll_empty(3))
  show "set (map fst (handlers m)) = set (map fst (unregisterFunctions m))"
    using k by (simp add: keysOK_iff dom_map_of_conv_image_fst)
  show "hasPutHandler m p \<longleftrightarrow> getHandler m p \<noteq> None"
    by (simp add: hasPutHandler_def getHandler_def)
  show "hasPutHandler m p \<longleftrightarrow> p \<in> set (map h_path (getHandlers m))"
    using k by (rule keysOK_paths)
  show "handlers (fst (unregisterAll (m, a))) = []"
    using k by (rule unregisterAll_empty(1))
  show "unregisterFunctions (fst (unregisterAll (m, a))) = []"
    using k by (rule unregisterAll_empty(2))
qed

lemma run_one_register:
  "putRun [Register ''a.b'' \<lparr>o_acceptAllSources = None\<rparr> ''t1''] (newPutHandlerManager, hostWith JUndefined)
   = (\<lparr>handlers = [(''a.b'', \<lparr>h_path = ''a.b'', registeredAt = ''t1'', acceptAllSources = False\<rparr>)],
       unregisterFunctions = [(''a.b'', 0)]\<rparr>,
      (hostWith JUndefined)\<lparr>debugLog := [LogRegistering ''a.b''],
         installed := [(0, ''vessels.self'', ''a.b'', Some ''whatif-helper'')], nextCap := 1\<rparr>)"
  by (simp add: putRun_def registerHandler_def registerPutHandler_def newPutHandlerManager_def
      hostWith_def debug_def SOURCE_LABEL_def)

theorem registerHandler_at_most_one_witness:
  "installed (hostWith JUndefined) = []
   \<and> hasPutHandler (fst (putRun [Register ''a.b'' \<lparr>o_acceptAllSources = None\<rparr> ''t1'']
        (newPutHandlerManager, hostWith JUndefined))) ''a.b''
   \<and> length (activeFor (snd (putRun [Register ''a.b'' \<lparr>o_acceptAllSources = None\<rparr> ''t1'']
        (newPutHandlerManager, hostWith JUndefined))) ''a.b'') = 1
   \<and> getHandler (fst (snd (registerHandler ''a.b'' \<lparr>o_acceptAllSources = Some True\<rparr> ''t2''
        (putRun [Register ''a.b'' \<lparr>o_acceptAllSources = None\<rparr> ''t1'']
          (newPutHandlerManager, hostWith JUndefined))))) ''a.b''
      = Some \<lparr>h_path = ''a.b'', registeredAt = ''t1'', acceptAllSources = False\<rparr>"
proof -
  let ?st = "putRun [Register ''a.b'' \<lparr>o_acceptAllSources = None\<rparr> ''t1'']
        (newPutHandlerManager, hostWith JUndefined)"
  have i: "installed (hostWith JUndefined) = []"
    by (simp add: hostWith_def)
  have has: "hasPutHandler (fst ?st) ''a.b''"
    by (simp add: run_one_register hasPutHandler_def)
  have g: "getHandler (fst ?st) ''a.b'' = Some \<lparr>h_path = ''a.b'', registeredAt = ''t1'', acceptAllSources = False\<rparr>"
    by (simp add: run_one_register getHandler_def)
  note t = registerHandler_at_most_one [OF i refl,
      of "[Register ''a.b'' \<lparr>o_acceptAllSources = None\<rparr> ''t1'']" "''a.b''"
         "\<lparr>o_acceptAllSources = Some True\<rparr>" "''t2''"]
  from t has have "length (activeFor (snd ?st) ''a.b'') = 1"
    by simp
  moreover from t has g have "getHandler (fst (snd (registerHandler ''a.b'' \<lparr>o_acceptAllSources = Some True\<rparr> ''t2'' ?st))) ''a.b''
      = Some \<lparr>h_path = ''a.b'', registeredAt = ''t1'', acceptAllSources = False\<rparr>"
    by simp
  ultimately show ?thesis
    using i has by blast
qed

theorem unregisterHandler_result_witness:
  "installed (hostWith JUndefined) = []
   \<and> \<not> hasPutHandler (fst (putRun [Register ''a.b'' \<lparr>o_acceptAllSources = None\<rparr> ''t1'']
        (newPutHandlerManager, hostWith JUndefined))) ''no.such.path''
   \<and> unregisterHandler ''no.such.path''
        (putRun [Register ''a.b'' \<lparr>o_acceptAllSources = None\<rparr> ''t1'']
          (newPutHandlerManager, hostWith JUndefined))
      = (False, putRun [Register ''a.b'' \<lparr>o_acceptAllSources = None\<rparr> ''t1'']
          (newPutHandlerManager, hostWith JUndefined))
   \<and> hasPutHandler (fst (putRun [Register ''a.b'' \<lparr>o_acceptAllSources = None\<rparr> ''t1'']
        (newPutHandlerManager, hostWith JUndefined))) ''a.b''
   \<and> fst (unregisterHandler ''a.b''
        (putRun [Register ''a.b'' \<lparr>o_acceptAllSources = None\<rparr> ''t1'']
          (newPutHandlerManager, hostWith JUndefined))) = True
   \<and> activeFor (snd (snd (unregisterHandler ''a.b''
        (putRun [Register ''a.b'' \<lparr>o_acceptAllSources = None\<rparr> ''t1'']
          (newPutHandlerManager, hostWith JUndefined))))) ''a.b'' = []
   \<and> getHandler (fst (snd (unregisterHandler ''no.such.path''
        (putRun [Register ''a.b'' \<lparr>o_acceptAllSources = None\<rparr> ''t1'']
          (newPutHandlerManager, hostWith JUndefined))))) ''a.b''
      = Some \<lparr>h_path = ''a.b'', registeredAt = ''t1'', acceptAllSources = False\<rparr>"
proof -
  let ?st = "putRun [Register ''a.b'' \<lparr>o_acceptAllSources = None\<rparr> ''t1'']
        (newPutHandlerManager, hostWith JUndefined)"
  have i: "installed (hostWith JUndefined) = []"
    by (simp add: hostWith_def)
  have no: "\<not> hasPutHandler (fst ?st) ''no.such.path''"
    by (simp add: run_one_register hasPutHandler_def)
  have has: "hasPutHandler (fst ?st) ''a.b''"
    by (simp add: run_one_register hasPutHandler_def)
  have g: "getHandler (fst ?st) ''a.b'' = Some \<lparr>h_path = ''a.b'', registeredAt = ''t1'', acceptAllSources = False\<rparr>"
    by (simp add: run_one_register getHandler_def)
  note t1 = unregisterHandler_result [OF i refl,
      of "[Register ''a.b'' \<lparr>o_acceptAllSources = None\<rparr> ''t1'']" "''no.such.path''"]
  note t2 = unregisterHandler_result [OF i refl,
      of "[Register ''a.b'' \<lparr>o_acceptAllSources = None\<rparr> ''t1'']" "''a.b''"]
  from t1 no have u: "unregisterHandler ''no.such.path'' ?st = (False, ?st)"
    by simp
  from t2 has have "fst (unregisterHandler ''a.b'' ?st) = True"
    and "activeFor (snd (snd (unregisterHandler ''a.b'' ?st))) ''a.b'' = []"
    by simp_all
  moreover from g have "getHandler (fst (snd (unregisterHandler ''no.such.path'' ?st))) ''a.b''
      = Some \<lparr>h_path = ''a.b'', registeredAt = ''t1'', acceptAllSources = False\<rparr>"
    unfolding u by simp
  ultimately show ?thesis
    using i no has u by blast
qed

theorem handler_maps_invariant_witness:
  "keysOK (fst (putRun [Register ''a.b'' \<lparr>o_acceptAllSources = None\<rparr> ''t1'']
        (newPutHandlerManager, hostWith JUndefined)))
   \<and> hasPutHandler (fst (putRun [Register ''a.b'' \<lparr>o_acceptAllSources = None\<rparr> ''t1'']
        (newPutHandlerManager, hostWith JUndefined))) ''a.b''
   \<and> ''a.b'' \<in> set (map h_path (getHandlers (fst (putRun [Register ''a.b'' \<lparr>o_acceptAllSources = None\<rparr> ''t1'']
        (newPutHandlerManager, hostWith JUndefined)))))
   \<and> handlers (fst (unregisterAll (putRun [Register ''a.b'' \<lparr>o_acceptAllSources = None\<rparr> ''t1'']
        (newPutHandlerManager, hostWith JUndefined)))) = []
   \<and> unregisterFunctions (fst (unregisterAll (putRun [Register ''a.b'' \<lparr>o_acceptAllSources = None\<rparr> ''t1'']
        (newPutHandlerManager, hostWith JUndefined)))) = []"
proof -
  let ?st = "putRun [Register ''a.b'' \<lparr>o_acceptAllSources = None\<rparr> ''t1'']
        (newPutHandlerManager, hostWith JUndefined)"
  note t = handler_maps_invariant
    [of "[Register ''a.b'' \<lparr>o_acceptAllSources = None\<rparr> ''t1'']" "hostWith JUndefined"
        "fst ?st" "''a.b''" "\<lparr>o_acceptAllSources = None\<rparr>" "''t2''" "snd ?st"]
  from t have k: "keysOK (fst ?st)"
    by blast
  have has: "hasPutHandler (fst ?st) ''a.b''"
    by (simp add: run_one_register hasPutHandler_def)
  from t k has show ?thesis
    by simp
qed

section \<open>The PUT handler\<close>

lemma putHandler_completed:
  assumes "cb = None \<or> (\<exists>f. cb = Some f \<and> f \<lparr>state = COMPLETED, statusCode = Some 200, message = None\<rparr> = None)"
  shows "fst (putHandler pm ctx putPath v cb now a)
           = Inr \<lparr>state = COMPLETED, statusCode = Some 200, message = None\<rparr>"
  using assms
  by (auto simp: putHandler_def Let_def split: prod.splits)

text \<open>
  C3. On a host whose \<^verbatim>\<open>handleMessage\<close> throws, the \<^verbatim>\<open>setValue\<close> the handler calls for
  the invocation's path ends in a rejected promise and submits nothing, and the handler
  still returns \<^verbatim>\<open>COMPLETED\<close> with status 200 and passes that same result to the callback,
  once.
\<close>

theorem putHandler_completed_on_rejection:
  "fst (setValue newPathManager ''a.b'' (JNum 1) None ''t''
          (debug (LogPutReceived ''a.b'' (JNum 1)) failingHost)) = Rejected (ErrorObj ''bus down'')
   \<and> fst (putHandler newPathManager ''vessels.self'' ''a.b'' (JNum 1) (Some (\<lambda>r. None)) ''t'' failingHost)
       = Inr \<lparr>state = COMPLETED, statusCode = Some 200, message = None\<rparr>
   \<and> fst (snd (putHandler newPathManager ''vessels.self'' ''a.b'' (JNum 1) (Some (\<lambda>r. None)) ''t'' failingHost))
       = [\<lparr>state = COMPLETED, statusCode = Some 200, message = None\<rparr>]
   \<and> submitted (snd (snd (putHandler newPathManager ''vessels.self'' ''a.b'' (JNum 1) (Some (\<lambda>r. None)) ''t''
        failingHost))) = []"
  by (simp add: putHandler_def setValue_def handleMessage_def debug_def failingHost_def hostWith_def
      sourceLabelFor_def autoLabel_def labelFromData_def Let_def)

section \<open>Broadcast\<close>

text \<open>
  C4. For an event with the non-empty path \<open>p\<close>, every client keeps its place, identity
  and subscriptions; a client whose connection is open and whose subscriptions contain
  \<open>p\<close> or \<^verbatim>\<open>*\<close> gets one \<^verbatim>\<open>update\<close> with the snapshot of the event's path, value,
  timestamp and source appended to what was sent to it, and every other client, in
  particular one with no subscription or with a connection that is not open, gets
  nothing. \<^verbatim>\<open>unsubscribeAll\<close> leaves the client with no subscription.
\<close>

theorem handleDelta_fanout:
  assumes "getProp dl ''path'' = JStr p" and "p \<noteq> []"
  shows "\<exists>clients'. handleDelta dl clients = Some clients'
    \<and> length clients' = length clients
    \<and> (\<forall>i < length clients.
          c_id (clients' ! i) = c_id (clients ! i)
          \<and> c_open (clients' ! i) = c_open (clients ! i)
          \<and> subscriptions (clients' ! i) = subscriptions (clients ! i)
          \<and> outbox (clients' ! i) = outbox (clients ! i) @
              (if c_open (clients ! i)
                  \<and> (p \<in> set (subscriptions (clients ! i)) \<or> ''*'' \<in> set (subscriptions (clients ! i)))
               then [WsUpdate \<lparr>pi_path = p, pi_value = getProp dl ''value'',
                               pi_timestamp = getProp dl ''timestamp'',
                               pi_source = js_or (getProp dl ''$source'')
                                             (getProp (getProp dl ''source'') ''label''),
                               pi_meta = JUndefined\<rparr>]
               else []))
    \<and> subscriptions (wsHandleMessage a pm c \<lparr>m_type = ''unsubscribeAll'', m_paths = ps, m_path = q\<rparr>) = []"
proof -
  have t: "truthy dl"
    using assms by (cases dl) auto
  let ?f = "\<lambda>c. if setHas (subscriptions c) p \<or> setHas (subscriptions c) ''*''
                 then send c (WsUpdate (deltaInfo p dl)) else c"
  have h: "handleDelta dl clients = Some (map ?f clients)"
    using assms t by (simp add: handleDelta_def)
  have "\<forall>i < length clients.
          c_id (map ?f clients ! i) = c_id (clients ! i)
          \<and> c_open (map ?f clients ! i) = c_open (clients ! i)
          \<and> subscriptions (map ?f clients ! i) = subscriptions (clients ! i)
          \<and> outbox (map ?f clients ! i) = outbox (clients ! i) @
              (if c_open (clients ! i)
                  \<and> (p \<in> set (subscriptions (clients ! i)) \<or> ''*'' \<in> set (subscriptions (clients ! i)))
               then [WsUpdate \<lparr>pi_path = p, pi_value = getProp dl ''value'',
                               pi_timestamp = getProp dl ''timestamp'',
                               pi_source = js_or (getProp dl ''$source'')
                                             (getProp (getProp dl ''source'') ''label''),
                               pi_meta = JUndefined\<rparr>]
               else [])"
    by (simp add: send_def setHas_def deltaInfo_def sourceOf_def)
  moreover have "subscriptions (wsHandleMessage a pm c \<lparr>m_type = ''unsubscribeAll'', m_paths = ps, m_path = q\<rparr>) = []"
    by (simp add: wsHandleMessage_def)
  ultimately show ?thesis
    using h by simp
qed

theorem handleDelta_fanout_witness:
  "getProp (JObj [(''path'', JStr ''a.b''), (''value'', JNum 7), (''timestamp'', JStr ''t''),
                  (''$source'', JStr ''n2k-01'')]) ''path'' = JStr ''a.b''
   \<and> ''a.b'' \<noteq> []
   \<and> (\<exists>cs. handleDelta (JObj [(''path'', JStr ''a.b''), (''value'', JNum 7), (''timestamp'', JStr ''t''),
                               (''$source'', JStr ''n2k-01'')])
          [\<lparr>c_id = ''client-1'', c_open = True, subscriptions = [''a.b''], outbox = []\<rparr>,
           \<lparr>c_id = ''client-2'', c_open = True, subscriptions = [''*''], outbox = []\<rparr>,
           \<lparr>c_id = ''client-3'', c_open = True, subscriptions = [], outbox = []\<rparr>,
           \<lparr>c_id = ''client-4'', c_open = False, subscriptions = [''a.b''], outbox = []\<rparr>,
           \<lparr>c_id = ''client-5'', c_open = True, subscriptions = [''x.y''], outbox = []\<rparr>] = Some cs
        \<and> outbox (cs ! 0) = [WsUpdate \<lparr>pi_path = ''a.b'', pi_value = JNum 7, pi_timestamp = JStr ''t'',
                                        pi_source = JStr ''n2k-01'', pi_meta = JUndefined\<rparr>]
        \<and> outbox (cs ! 1) = [WsUpdate \<lparr>pi_path = ''a.b'', pi_value = JNum 7, pi_timestamp = JStr ''t'',
                                        pi_source = JStr ''n2k-01'', pi_meta = JUndefined\<rparr>]
        \<and> outbox (cs ! 2) = []
        \<and> outbox (cs ! 3) = []
        \<and> outbox (cs ! 4) = [])"
proof -
  let ?dl = "JObj [(''path'', JStr ''a.b''), (''value'', JNum 7), (''timestamp'', JStr ''t''),
                  (''$source'', JStr ''n2k-01'')]"
  let ?clients = "[\<lparr>c_id = ''client-1'', c_open = True, subscriptions = [''a.b''], outbox = []\<rparr>,
           \<lparr>c_id = ''client-2'', c_open = True, subscriptions = [''*''], outbox = []\<rparr>,
           \<lparr>c_id = ''client-3'', c_open = True, subscriptions = [], outbox = []\<rparr>,
           \<lparr>c_id = ''client-4'', c_open = False, subscriptions = [''a.b''], outbox = []\<rparr>,
           \<lparr>c_id = ''client-5'', c_open = True, subscriptions = [''x.y''], outbox = []\<rparr>]"
  have h1: "getProp ?dl ''path'' = JStr ''a.b''" by simp
  have h2: "''a.b'' \<noteq> []" by simp
  from handleDelta_fanout [OF h1 h2, of ?clients]
  obtain cs where cs: "handleDelta ?dl ?clients = Some cs"
    and each: "\<forall>i < length ?clients.
          outbox (cs ! i) = outbox (?clients ! i) @
              (if c_open (?clients ! i)
                  \<and> (''a.b'' \<in> set (subscriptions (?clients ! i)) \<or> ''*'' \<in> set (subscriptions (?clients ! i)))
               then [WsUpdate \<lparr>pi_path = ''a.b'', pi_value = getProp ?dl ''value'',
                               pi_timestamp = getProp ?dl ''timestamp'',
                               pi_source = js_or (getProp ?dl ''$source'')
                                             (getProp (getProp ?dl ''source'') ''label''),
                               pi_meta = JUndefined\<rparr>]
               else [])"
    by blast
  from each have "outbox (cs ! 0) = [WsUpdate \<lparr>pi_path = ''a.b'', pi_value = JNum 7, pi_timestamp = JStr ''t'',
                                        pi_source = JStr ''n2k-01'', pi_meta = JUndefined\<rparr>]"
    by (simp add: js_or_def)
  moreover from each have "outbox (cs ! 1) = [WsUpdate \<lparr>pi_path = ''a.b'', pi_value = JNum 7, pi_timestamp = JStr ''t'',
                                        pi_source = JStr ''n2k-01'', pi_meta = JUndefined\<rparr>]"
    by (simp add: js_or_def)
  moreover from each have "outbox (cs ! 2) = []" by simp
  moreover from each have "outbox (cs ! 3) = []" by simp
  moreover from each have "outbox (cs ! 4) = []" by simp
  ultimately show ?thesis
    using cs h1 h2 by blast
qed

section \<open>Snapshot on subscribe\<close>

lemma currentValues_fulfilled:
  "(\<forall>p \<in> set ps. \<exists>r. getPath a pm p = Fulfilled r) \<Longrightarrow>
   currentValues a pm ps = Inr (List.map_filter (found a pm) ps)"
proof (induction ps)
  case Nil
  then show ?case by (simp add: List.map_filter_simps)
next
  case (Cons p ps)
  then obtain r where r: "getPath a pm p = Fulfilled r" by auto
  with Cons show ?case
    by (cases r) (simp_all add: List.map_filter_simps found_def)
qed

lemma set_setAdd: "set (setAdd x xs) = insert x (set xs)"
  by (auto simp: setAdd_def)

lemma distinct_setAdd: "distinct xs \<Longrightarrow> distinct (setAdd x xs)"
  by (simp add: setAdd_def)

lemma set_foldl_setAdd: "set (foldl (\<lambda>subs path. setAdd path subs) subs ps) = set subs \<union> set ps"
  by (induction ps arbitrary: subs) (auto simp: set_setAdd)

lemma distinct_foldl_setAdd:
  "distinct subs \<Longrightarrow> distinct (foldl (\<lambda>subs path. setAdd path subs) subs ps)"
  by (induction ps arbitrary: subs) (simp_all add: distinct_setAdd)

lemma subscribeTo_set:
  "set (subscriptions (subscribeTo msg c)) =
     set (subscriptions c) \<union>
       (case m_paths msg of Some ps \<Rightarrow> set ps
        | None \<Rightarrow> (case m_path msg of Some p \<Rightarrow> (if p \<noteq> [] then {p} else {}) | None \<Rightarrow> {}))"
  by (auto simp: subscribeTo_def set_foldl_setAdd set_setAdd split: option.splits)

lemma subscribeTo_distinct:
  "distinct (subscriptions c) \<Longrightarrow> distinct (subscriptions (subscribeTo msg c))"
  by (auto simp: subscribeTo_def distinct_foldl_setAdd distinct_setAdd split: option.splits)

lemma subscribeTo_rest [simp]:
  "outbox (subscribeTo msg c) = outbox c" "c_open (subscribeTo msg c) = c_open c"
  by (auto simp: subscribeTo_def split: option.splits)

text \<open>
  A \<^verbatim>\<open>subscribe\<close> message adds its paths to the client's subscriptions, which stay
  free of duplicates. When the connection is open, the client then gets exactly one
  more message, a \<^verbatim>\<open>full\<close>: with \<^verbatim>\<open>*\<close> among the subscriptions it carries the whole
  listing of the tree; otherwise, when no read of a subscribed path fails, it carries
  the snapshots of the subscribed paths in order, one for each path that the tree has
  and none for a path it reports as undefined.
\<close>

lemma subscribe_sends_full:
  assumes "m_type msg = ''subscribe''" and "c_open c" and "distinct (subscriptions c)"
  shows "set (subscriptions (wsHandleMessage a pm c msg)) =
           set (subscriptions c) \<union>
             (case m_paths msg of Some ps \<Rightarrow> set ps
              | None \<Rightarrow> (case m_path msg of Some p \<Rightarrow> (if p \<noteq> [] then {p} else {}) | None \<Rightarrow> {}))
    \<and> distinct (subscriptions (wsHandleMessage a pm c msg))
    \<and> (''*'' \<in> set (subscriptions (wsHandleMessage a pm c msg)) \<longrightarrow>
         outbox (wsHandleMessage a pm c msg) = outbox c @ [WsFull (getAllPaths a pm None)])
    \<and> (''*'' \<notin> set (subscriptions (wsHandleMessage a pm c msg))
         \<and> (\<forall>p \<in> set (subscriptions (wsHandleMessage a pm c msg)). \<exists>r. getPath a pm p = Fulfilled r) \<longrightarrow>
         outbox (wsHandleMessage a pm c msg) =
           outbox c @ [WsFull (List.map_filter (found a pm) (subscriptions (wsHandleMessage a pm c msg)))])
    \<and> (\<forall>p. found a pm p = None \<longleftrightarrow>
           getSelfPath a p = Inr JUndefined \<or> (\<exists>e. getPath a pm p = Rejected e))"
proof -
  let ?c1 = "subscribeTo msg c"
  have subs: "subscriptions (wsHandleMessage a pm c msg) = subscriptions ?c1"
    using assms(1)
    by (auto simp: wsHandleMessage_def sendCurrentValues_def send_def split: sum.splits)
  have 1: "''*'' \<in> set (subscriptions ?c1) \<Longrightarrow>
      outbox (wsHandleMessage a pm c msg) = outbox c @ [WsFull (getAllPaths a pm None)]"
    using assms(1,2) by (simp add: wsHandleMessage_def sendCurrentValues_def send_def setHas_def)
  have 2: "outbox (wsHandleMessage a pm c msg) =
           outbox c @ [WsFull (List.map_filter (found a pm) (subscriptions ?c1))]"
    if "''*'' \<notin> set (subscriptions ?c1)"
      and "\<forall>p \<in> set (subscriptions ?c1). \<exists>r. getPath a pm p = Fulfilled r"
    using assms(1,2) that currentValues_fulfilled [OF that(2)]
    by (simp add: wsHandleMessage_def sendCurrentValues_def send_def setHas_def)
  have 3: "found a pm p = None \<longleftrightarrow>
           getSelfPath a p = Inr JUndefined \<or> (\<exists>e. getPath a pm p = Rejected e)" for p
    by (auto simp: found_def getPath_def Let_def split: sum.splits promise.splits if_splits)
  show ?thesis
    unfolding subs using 1 2 3 subscribeTo_set [of msg c] subscribeTo_distinct [OF assms(3), of msg]
    by simp
qed

lemma subscribe_sends_full_example:
  "m_type \<lparr>m_type = ''subscribe'', m_paths = Some [''x.y'', ''no.such''], m_path = None\<rparr> = ''subscribe''
   \<and> c_open \<lparr>c_id = ''client-1'', c_open = True, subscriptions = [], outbox = []\<rparr>
   \<and> getPath (hostOf [(''x.y'', JObj [(''value'', JNum 3), (''$source'', JStr ''n2k-01'')])])
        newPathManager ''x.y''
      = Fulfilled (Some \<lparr>pi_path = ''x.y'', pi_value = JNum 3, pi_timestamp = JUndefined,
                          pi_source = JStr ''n2k-01'', pi_meta = JUndefined\<rparr>)
   \<and> getPath (hostOf [(''x.y'', JObj [(''value'', JNum 3), (''$source'', JStr ''n2k-01'')])])
        newPathManager ''no.such'' = Fulfilled None
   \<and> subscriptions (wsHandleMessage (hostOf [(''x.y'', JObj [(''value'', JNum 3), (''$source'', JStr ''n2k-01'')])])
        newPathManager \<lparr>c_id = ''client-1'', c_open = True, subscriptions = [], outbox = []\<rparr>
        \<lparr>m_type = ''subscribe'', m_paths = Some [''x.y'', ''no.such''], m_path = None\<rparr>)
      = [''x.y'', ''no.such'']
   \<and> outbox (wsHandleMessage (hostOf [(''x.y'', JObj [(''value'', JNum 3), (''$source'', JStr ''n2k-01'')])])
        newPathManager \<lparr>c_id = ''client-1'', c_open = True, subscriptions = [], outbox = []\<rparr>
        \<lparr>m_type = ''subscribe'', m_paths = Some [''x.y'', ''no.such''], m_path = None\<rparr>)
      = [WsFull [\<lparr>pi_path = ''x.y'', pi_value = JNum 3, pi_timestamp = JUndefined,
                  pi_source = JStr ''n2k-01'', pi_meta = JUndefined\<rparr>]]"
proof -
  let ?a = "hostOf [(''x.y'', JObj [(''value'', JNum 3), (''$source'', JStr ''n2k-01'')])]"
  let ?c = "\<lparr>c_id = ''client-1'', c_open = True, subscriptions = [], outbox = []\<rparr>"
  let ?msg = "\<lparr>m_type = ''subscribe'', m_paths = Some [''x.y'', ''no.such''], m_path = None\<rparr>"
  let ?i = "\<lparr>pi_path = ''x.y'', pi_value = JNum 3, pi_timestamp = JUndefined,
                          pi_source = JStr ''n2k-01'', pi_meta = JUndefined\<rparr>"
  have h1: "m_type ?msg = ''subscribe''" by simp
  have h2: "c_open ?c" by simp
  have h3: "distinct (subscriptions ?c)" by simp
  have g1: "getPath ?a newPathManager ''x.y'' = Fulfilled (Some ?i)"
    by (simp add: getPath_def hostOf_def hostWith_def newPathManager_def withCustomMeta_def
        sourceOf_def js_or_def)
  have g2: "getPath ?a newPathManager ''no.such'' = Fulfilled None"
    by (simp add: getPath_def hostOf_def hostWith_def)
  have s: "subscriptions (wsHandleMessage ?a newPathManager ?c ?msg) = [''x.y'', ''no.such'']"
    using g1 g2
    by (simp add: wsHandleMessage_def sendCurrentValues_def subscribeTo_def setAdd_def setHas_def
        send_def)
  note t = subscribe_sends_full [OF h1 h2 h3, of ?a newPathManager]
  have h4: "''*'' \<notin> set (subscriptions (wsHandleMessage ?a newPathManager ?c ?msg))
         \<and> (\<forall>p \<in> set (subscriptions (wsHandleMessage ?a newPathManager ?c ?msg)).
               \<exists>r. getPath ?a newPathManager p = Fulfilled r)"
    unfolding s using g1 g2 by simp
  with t have "outbox (wsHandleMessage ?a newPathManager ?c ?msg) =
           outbox ?c @ [WsFull (List.map_filter (found ?a newPathManager)
              (subscriptions (wsHandleMessage ?a newPathManager ?c ?msg)))]"
    by blast
  then have "outbox (wsHandleMessage ?a newPathManager ?c ?msg) = [WsFull [?i]]"
    unfolding s using g1 g2 by (simp add: List.map_filter_simps found_def)
  with h1 h2 g1 g2 s show ?thesis
    by blast
qed

text \<open>
  C5. A client with an open connection subscribes to a path at which the tree holds
  \<^verbatim>\<open>null\<close>. The read of \<^verbatim>\<open>getPath\<close> throws, \<^verbatim>\<open>sendCurrentValues\<close> ends rejected, and the
  client, now subscribed, gets no \<^verbatim>\<open>full\<close> message; a later subscription of the same
  client to a path the tree has gets none either.
\<close>

theorem subscribe_null_read_sends_nothing:
  "getSelfPath (hostOf [(''x.y'', JNull), (''a.b'', JObj [(''value'', JNum 1)])]) ''x.y'' = Inr JNull
   \<and> getPath (hostOf [(''x.y'', JNull), (''a.b'', JObj [(''value'', JNum 1)])]) newPathManager ''x.y''
       = Rejected (ErrorObj ''Cannot use in operator to search for value in null'')
   \<and> fst (sendCurrentValues (hostOf [(''x.y'', JNull), (''a.b'', JObj [(''value'', JNum 1)])])
        newPathManager
        (subscribeTo \<lparr>m_type = ''subscribe'', m_paths = Some [''x.y''], m_path = None\<rparr>
           \<lparr>c_id = ''client-1'', c_open = True, subscriptions = [], outbox = []\<rparr>))
       = Rejected (ErrorObj ''Cannot use in operator to search for value in null'')
   \<and> wsHandleMessage (hostOf [(''x.y'', JNull), (''a.b'', JObj [(''value'', JNum 1)])])
        newPathManager \<lparr>c_id = ''client-1'', c_open = True, subscriptions = [], outbox = []\<rparr>
        \<lparr>m_type = ''subscribe'', m_paths = Some [''x.y''], m_path = None\<rparr>
       = \<lparr>c_id = ''client-1'', c_open = True, subscriptions = [''x.y''], outbox = []\<rparr>
   \<and> wsHandleMessage (hostOf [(''x.y'', JNull), (''a.b'', JObj [(''value'', JNum 1)])])
        newPathManager \<lparr>c_id = ''client-1'', c_open = True, subscriptions = [''x.y''], outbox = []\<rparr>
        \<lparr>m_type = ''subscribe'', m_paths = Some [''a.b''], m_path = None\<rparr>
       = \<lparr>c_id = ''client-1'', c_open = True, subscriptions = [''x.y'', ''a.b''], outbox = []\<rparr>"
  by (simp add: wsHandleMessage_def sendCurrentValues_def subscribeTo_def setAdd_def setHas_def
      getPath_def hostOf_def hostWith_def)

section \<open>Listing: filters\<close>

lemma applyFilter_satisfies: "applyFilter f paths = filter (satisfies f) paths"
proof -
  have "filter (satisfies f) paths =
      filter (\<lambda>p. case f_baseUnit f of
                     Some baseUnit \<Rightarrow> baseUnit \<noteq> [] \<longrightarrow> baseUnitFilter baseUnit p | None \<Rightarrow> True)
        (filter (\<lambda>p. f_hasMeta f = Some True \<longrightarrow> hasMetaFilter p)
          (filter (\<lambda>p. f_hasValue f = Some True \<longrightarrow> hasValueFilter p)
            (filter (\<lambda>p. case f_search f of
                             Some search \<Rightarrow> search \<noteq> [] \<longrightarrow> searchFilter search p | None \<Rightarrow> True)
               paths)))"
    by (auto simp: satisfies_def searchFilter_def hasValueFilter_def hasMetaFilter_def
        baseUnitFilter_def intro!: filter_cong split: option.splits)
  also have "\<dots> = applyFilter f paths"
    by (simp add: applyFilter_def Let_def split: option.splits)
  finally show ?thesis by simp
qed

lemma mset_insertByPath: "mset (insertByPath cmp x ys) = add_mset x (mset ys)"
  by (induction ys) simp_all

lemma mset_sortByPath: "mset (sortByPath cmp xs) = mset xs"
  by (induction xs) (simp_all add: sortByPath_def mset_insertByPath)

lemma set_sortByPath: "set (sortByPath cmp xs) = set xs"
  by (metis mset_sortByPath set_mset_mset)

lemma set_insertByPath: "set (insertByPath cmp x ys) = insert x (set ys)"
  by (metis mset_insertByPath set_mset_mset set_mset_add_mset_insert)

lemma sorted_insertByPath:
  assumes "consistentComparator cmp" and "sorted_wrt (byPath cmp) ys"
  shows "sorted_wrt (byPath cmp) (insertByPath cmp x ys)"
  using assms(2)
proof (induction ys)
  case Nil
  then show ?case by simp
next
  case (Cons y ys)
  have total: "\<And>u v. 0 < cmp u v \<Longrightarrow> cmp v u \<le> 0"
    and trans: "\<And>u v w. cmp u v \<le> 0 \<Longrightarrow> cmp v w \<le> 0 \<Longrightarrow> cmp u w \<le> 0"
    using assms(1) unfolding consistentComparator_def by blast+
  show ?case
  proof (cases "cmp (pi_path x) (pi_path y) \<le> 0")
    case True
    then have "\<forall>z \<in> set ys. byPath cmp x z"
      using Cons.prems trans by (auto simp: byPath_def)
    with True Cons.prems show ?thesis
      by (simp add: byPath_def)
  next
    case False
    then have "byPath cmp y x"
      using total by (simp add: byPath_def)
    with False Cons show ?thesis
      by (auto simp: set_insertByPath)
  qed
qed

lemma sorted_sortByPath:
  "consistentComparator cmp \<Longrightarrow> sorted_wrt (byPath cmp) (sortByPath cmp xs)"
  by (induction xs) (simp_all add: sortByPath_def sorted_insertByPath)

lemma filter_insertByPath:
  assumes "consistentComparator cmp" and "sorted_wrt (byPath cmp) ys"
  shows "filter P (insertByPath cmp x ys) =
           (if P x then insertByPath cmp x (filter P ys) else filter P ys)"
  using assms(2)
proof (induction ys)
  case Nil
  then show ?case by simp
next
  case (Cons y ys)
  have trans: "\<And>u v w. cmp u v \<le> 0 \<Longrightarrow> cmp v w \<le> 0 \<Longrightarrow> cmp u w \<le> 0"
    using assms(1) unfolding consistentComparator_def by blast
  show ?case
  proof (cases "cmp (pi_path x) (pi_path y) \<le> 0")
    case True
    have all: "\<forall>z \<in> set (y # ys). cmp (pi_path x) (pi_path z) \<le> 0"
      using True Cons.prems trans by (auto simp: byPath_def)
    have "insertByPath cmp x (filter P (y # ys)) = x # filter P (y # ys)"
    proof (cases "filter P (y # ys)")
      case Nil
      then show ?thesis by simp
    next
      case (Cons h t)
      then have "h \<in> set (filter P (y # ys))"
        by simp
      then have "h \<in> set (y # ys)"
        by (simp only: set_filter) blast
      with all have "cmp (pi_path x) (pi_path h) \<le> 0" by blast
      with Cons show ?thesis by simp
    qed
    with True show ?thesis by simp
  next
    case False
    with Cons show ?thesis by simp
  qed
qed

lemma filter_sortByPath:
  "consistentComparator cmp \<Longrightarrow> filter P (sortByPath cmp xs) = sortByPath cmp (filter P xs)"
proof (induction xs)
  case Nil
  then show ?case by (simp add: sortByPath_def)
next
  case (Cons x xs)
  have "sorted_wrt (byPath cmp) (sortByPath cmp xs)"
    using Cons.prems by (rule sorted_sortByPath)
  from filter_insertByPath [OF Cons.prems this, of P x] Cons show ?case
    by (simp add: sortByPath_def)
qed

lemma satisfies_split:
  "satisfies f p \<longleftrightarrow>
     satisfies (searchOnly f) p \<and> satisfies (hasValueOnly f) p
     \<and> satisfies (hasMetaOnly f) p \<and> satisfies (baseUnitOnly f) p"
  by (simp add: satisfies_def searchOnly_def hasValueOnly_def hasMetaOnly_def baseUnitOnly_def)

lemma getAllPaths_mset:
  "mset (getAllPaths a pm (Some f)) = filter_mset (satisfies f) (mset (getAllPaths a pm None))"
  by (simp add: getAllPaths_def mset_sortByPath applyFilter_satisfies)

lemma getAllPaths_set:
  "set (getAllPaths a pm (Some f)) = {p \<in> set (getAllPaths a pm None). satisfies f p}"
  by (simp add: getAllPaths_def set_sortByPath applyFilter_satisfies)

text \<open>
  C6. The filtered listing holds exactly the snapshots of the unfiltered listing that
  satisfy every given criterion, each as often as there, and in the same order when
  \<^verbatim>\<open>localeCompare\<close> orders. A search keeps the snapshots whose lower-cased path includes
  the lower-cased search string; \<^verbatim>\<open>hasValue\<close> drops those whose value is \<^verbatim>\<open>null\<close> or
  \<^verbatim>\<open>undefined\<close>; \<^verbatim>\<open>hasMeta\<close> keeps those with metadata; a base unit keeps those whose
  \<^verbatim>\<open>meta.units\<close> is that string. The result for a filter is the intersection of the
  results for each of its criteria alone.
\<close>

theorem getAllPaths_filter:
  "mset (getAllPaths a pm (Some f)) = filter_mset (satisfies f) (mset (getAllPaths a pm None))
   \<and> set (getAllPaths a pm (Some f)) = {p \<in> set (getAllPaths a pm None). satisfies f p}
   \<and> (consistentComparator (localeCompare a) \<longrightarrow>
        getAllPaths a pm (Some f) = filter (satisfies f) (getAllPaths a pm None))
   \<and> (satisfies \<lparr>f_search = Some search, f_hasValue = None, f_hasMeta = None, f_baseUnit = None\<rparr> p
        \<longleftrightarrow> includesStr (toLowerCase (pi_path p)) (toLowerCase search))
   \<and> (satisfies \<lparr>f_search = None, f_hasValue = Some True, f_hasMeta = None, f_baseUnit = None\<rparr> p
        \<longleftrightarrow> \<not> (pi_value p = JNull \<or> pi_value p = JUndefined))
   \<and> (satisfies \<lparr>f_search = None, f_hasValue = None, f_hasMeta = Some True, f_baseUnit = None\<rparr> p
        \<longleftrightarrow> pi_meta p \<noteq> JUndefined)
   \<and> (baseUnit \<noteq> [] \<longrightarrow>
        (satisfies \<lparr>f_search = None, f_hasValue = None, f_hasMeta = None, f_baseUnit = Some baseUnit\<rparr> p
          \<longleftrightarrow> getProp (pi_meta p) ''units'' = JStr baseUnit))
   \<and> set (getAllPaths a pm (Some f)) =
        set (getAllPaths a pm (Some (searchOnly f))) \<inter> set (getAllPaths a pm (Some (hasValueOnly f)))
        \<inter> set (getAllPaths a pm (Some (hasMetaOnly f))) \<inter> set (getAllPaths a pm (Some (baseUnitOnly f)))"
proof (intro conjI impI)
  show "mset (getAllPaths a pm (Some f)) = filter_mset (satisfies f) (mset (getAllPaths a pm None))"
    by (rule getAllPaths_mset)
  show "set (getAllPaths a pm (Some f)) = {p \<in> set (getAllPaths a pm None). satisfies f p}"
    by (rule getAllPaths_set)
  show "getAllPaths a pm (Some f) = filter (satisfies f) (getAllPaths a pm None)"
    if "consistentComparator (localeCompare a)"
    using that by (simp add: getAllPaths_def applyFilter_satisfies filter_sortByPath)
  have e: "includesStr s [] = True" for s
    by (cases s) simp_all
  show "satisfies \<lparr>f_search = Some search, f_hasValue = None, f_hasMeta = None, f_baseUnit = None\<rparr> p
        \<longleftrightarrow> includesStr (toLowerCase (pi_path p)) (toLowerCase search)"
    by (cases "search = []") (simp_all add: satisfies_def toLowerCase_def e)
  show "satisfies \<lparr>f_search = None, f_hasValue = Some True, f_hasMeta = None, f_baseUnit = None\<rparr> p
        \<longleftrightarrow> \<not> (pi_value p = JNull \<or> pi_value p = JUndefined)"
    by (simp add: satisfies_def)
  show "satisfies \<lparr>f_search = None, f_hasValue = None, f_hasMeta = Some True, f_baseUnit = None\<rparr> p
        \<longleftrightarrow> pi_meta p \<noteq> JUndefined"
    by (simp add: satisfies_def)
  show "satisfies \<lparr>f_search = None, f_hasValue = None, f_hasMeta = None, f_baseUnit = Some baseUnit\<rparr> p
          \<longleftrightarrow> getProp (pi_meta p) ''units'' = JStr baseUnit" if "baseUnit \<noteq> []"
    using that by (simp add: satisfies_def)
  show "set (getAllPaths a pm (Some f)) =
        set (getAllPaths a pm (Some (searchOnly f))) \<inter> set (getAllPaths a pm (Some (hasValueOnly f)))
        \<inter> set (getAllPaths a pm (Some (hasMetaOnly f))) \<inter> set (getAllPaths a pm (Some (baseUnitOnly f)))"
    unfolding getAllPaths_set using satisfies_split [of f] by blast
qed

lemma consistent_codeUnitCompare: "consistentComparator codeUnitCompare"
  by (auto simp: consistentComparator_def codeUnitCompare_def split: if_splits)

lemma demo_listing:
  "getAllPaths
     (hostWith (JObj [(''tanks'', JObj [(''fuel'', JObj [(''value'', JNum 1),
                                                         (''meta'', JObj [(''units'', JStr ''ratio'')])])]),
                      (''navigation'', JObj [(''speedOverGround'', JObj [(''value'', JNull)])])]))
     newPathManager None
   = [\<lparr>pi_path = ''navigation.speedOverGround'', pi_value = JNull, pi_timestamp = JUndefined,
       pi_source = JUndefined, pi_meta = JUndefined\<rparr>,
      \<lparr>pi_path = ''tanks.fuel'', pi_value = JNum 1, pi_timestamp = JUndefined,
       pi_source = JUndefined, pi_meta = JObj [(''units'', JStr ''ratio'')]\<rparr>]"
  by code_simp

theorem getAllPaths_filter_witness:
  "consistentComparator (localeCompare
     (hostWith (JObj [(''tanks'', JObj [(''fuel'', JObj [(''value'', JNum 1),
                                                         (''meta'', JObj [(''units'', JStr ''ratio'')])])]),
                      (''navigation'', JObj [(''speedOverGround'', JObj [(''value'', JNull)])])])))
   \<and> ''ratio'' \<noteq> []
   \<and> getAllPaths
     (hostWith (JObj [(''tanks'', JObj [(''fuel'', JObj [(''value'', JNum 1),
                                                         (''meta'', JObj [(''units'', JStr ''ratio'')])])]),
                      (''navigation'', JObj [(''speedOverGround'', JObj [(''value'', JNull)])])]))
     newPathManager
     (Some \<lparr>f_search = Some ''TANK'', f_hasValue = Some True, f_hasMeta = None, f_baseUnit = Some ''ratio''\<rparr>)
   = [\<lparr>pi_path = ''tanks.fuel'', pi_value = JNum 1, pi_timestamp = JUndefined,
       pi_source = JUndefined, pi_meta = JObj [(''units'', JStr ''ratio'')]\<rparr>]
   \<and> satisfies \<lparr>f_search = None, f_hasValue = None, f_hasMeta = None, f_baseUnit = Some ''ratio''\<rparr>
        \<lparr>pi_path = ''tanks.fuel'', pi_value = JNum 1, pi_timestamp = JUndefined,
         pi_source = JUndefined, pi_meta = JObj [(''units'', JStr ''ratio'')]\<rparr>"
proof -
  let ?a = "hostWith (JObj [(''tanks'', JObj [(''fuel'', JObj [(''value'', JNum 1),
                                                         (''meta'', JObj [(''units'', JStr ''ratio'')])])]),
                      (''navigation'', JObj [(''speedOverGround'', JObj [(''value'', JNull)])])])"
  let ?f = "\<lparr>f_search = Some ''TANK'', f_hasValue = Some True, f_hasMeta = None, f_baseUnit = Some ''ratio''\<rparr>"
  let ?tank = "\<lparr>pi_path = ''tanks.fuel'', pi_value = JNum 1, pi_timestamp = JUndefined,
         pi_source = JUndefined, pi_meta = JObj [(''units'', JStr ''ratio'')]\<rparr>"
  have h1: "consistentComparator (localeCompare ?a)"
    by (simp add: hostWith_def consistent_codeUnitCompare)
  have h2: "''ratio'' \<noteq> []" by simp
  note t = getAllPaths_filter [of ?a newPathManager ?f "''ratio''" ?tank "''ratio''"]
  from t h1 have "getAllPaths ?a newPathManager (Some ?f) = filter (satisfies ?f) (getAllPaths ?a newPathManager None)"
    by blast
  also have "\<dots> = [?tank]"
    unfolding demo_listing by code_simp
  finally have c1: "getAllPaths ?a newPathManager (Some ?f) = [?tank]" .
  from t h2 have c2: "satisfies \<lparr>f_search = None, f_hasValue = None, f_hasMeta = None, f_baseUnit = Some ''ratio''\<rparr> ?tank"
    by simp
  from h1 h2 c1 c2 show ?thesis
    by blast
qed

section \<open>Listing: order\<close>

lemma leafInfo_cong: "createdPaths pm = createdPaths pm' \<Longrightarrow> leafInfo pm ob p = leafInfo pm' ob p"
  by (simp add: leafInfo_def withCustomMeta_def Let_def)

lemma extractPaths_cong_aux:
  "(createdPaths pm = createdPaths pm' \<longrightarrow> extractPaths pm j p = extractPaths pm' j p)"
  "(createdPaths pm = createdPaths pm' \<longrightarrow> extractChildren pm kvs q = extractChildren pm' kvs q)"
proof (induction pm j p and pm kvs q rule: extractPaths_extractChildren.induct)
  case (1 pm kvs currentPath)
  show ?case
  proof
    assume e: "createdPaths pm = createdPaths pm'"
    from e have "leafInfo pm (JObj kvs) currentPath = leafInfo pm' (JObj kvs) currentPath"
      by (rule leafInfo_cong)
    with e "1" show "extractPaths pm (JObj kvs) currentPath = extractPaths pm' (JObj kvs) currentPath"
      by simp
  qed
next
  case (8 pm kv rest currentPath)
  then show ?case by simp
qed simp_all

lemma extractPaths_cong:
  assumes "createdPaths pm = createdPaths pm'"
  shows "extractPaths pm j p = extractPaths pm' j p"
  using assms extractPaths_cong_aux(1) by blast

lemma collectPaths_cong:
  assumes "getPathApi a = getPathApi a'" and "getSelfPath a [] = getSelfPath a' []"
    and "httpVessel a = httpVessel a'" and "createdPaths pm = createdPaths pm'"
  shows "collectPaths a pm = collectPaths a' pm'"
proof -
  have f: "fetchPathsFromAPI a pm xs = fetchPathsFromAPI a' pm' xs" for xs
    using assms(3) extractPaths_cong [OF assms(4)]
    by (simp add: fetchPathsFromAPI_def split: option.splits)
  show ?thesis
    using assms(1,2) extractPaths_cong [OF assms(4)] f
    by (auto simp: collectPaths_def Let_def split: sum.splits option.splits)
qed

lemma byPath_codeUnit: "byPath codeUnitCompare x y \<longleftrightarrow> pi_path x \<le> pi_path y"
  by (auto simp: byPath_def codeUnitCompare_def)

text \<open>
  C7, in the order of the runtime. The listing is sorted by path in the order of \<^verbatim>\<open>localeCompare\<close>,
  whenever that comparator orders; its paths ascend lexicographically when
  \<^verbatim>\<open>localeCompare\<close> compares code units. The listing is a rearrangement of the snapshots
  collected and filtered. Two listings agree when the tree read, the HTTP body, the
  comparator, the registry of created paths and the filter agree, whatever else differs
  in the host or the manager.
\<close>

theorem getAllPaths_sorted:
  "(consistentComparator (localeCompare a) \<longrightarrow>
      sorted_wrt (\<lambda>x y. localeCompare a (pi_path x) (pi_path y) \<le> 0) (getAllPaths a pm flt))
   \<and> (localeCompare a = codeUnitCompare \<longrightarrow> sorted (map pi_path (getAllPaths a pm flt)))
   \<and> mset (getAllPaths a pm flt) =
       mset (case flt of Some f \<Rightarrow> applyFilter f (collectPaths a pm) | None \<Rightarrow> collectPaths a pm)
   \<and> (getPathApi a = getPathApi a' \<and> getSelfPath a [] = getSelfPath a' []
       \<and> httpVessel a = httpVessel a' \<and> localeCompare a = localeCompare a'
       \<and> createdPaths pm = createdPaths pm' \<longrightarrow>
         getAllPaths a pm flt = getAllPaths a' pm' flt)"
proof (intro conjI impI)
  assume "consistentComparator (localeCompare a)"
  then have "sorted_wrt (byPath (localeCompare a)) (getAllPaths a pm flt)"
    by (simp add: getAllPaths_def Let_def sorted_sortByPath)
  then show "sorted_wrt (\<lambda>x y. localeCompare a (pi_path x) (pi_path y) \<le> 0) (getAllPaths a pm flt)"
    by (simp add: byPath_def [abs_def])
next
  assume c: "localeCompare a = codeUnitCompare"
  have "sorted_wrt (byPath codeUnitCompare) (getAllPaths a pm flt)"
    by (simp add: getAllPaths_def Let_def c sorted_sortByPath consistent_codeUnitCompare)
  then show "sorted (map pi_path (getAllPaths a pm flt))"
    by (simp add: sorted_map byPath_codeUnit [abs_def])
next
  show "mset (getAllPaths a pm flt) =
       mset (case flt of Some f \<Rightarrow> applyFilter f (collectPaths a pm) | None \<Rightarrow> collectPaths a pm)"
    by (simp add: getAllPaths_def Let_def mset_sortByPath)
next
  assume "getPathApi a = getPathApi a' \<and> getSelfPath a [] = getSelfPath a' []
       \<and> httpVessel a = httpVessel a' \<and> localeCompare a = localeCompare a'
       \<and> createdPaths pm = createdPaths pm'"
  then show "getAllPaths a pm flt = getAllPaths a' pm' flt"
    using collectPaths_cong [of a a' pm pm'] by (simp add: getAllPaths_def Let_def)
qed

lemma consistent_caseFoldCompare: "consistentComparator caseFoldCompare"
  by (auto simp: consistentComparator_def caseFoldCompare_def codeUnitCompare_def split: if_splits)

lemma folding_listing:
  "map pi_path (getAllPaths
     (foldingHost (JObj [(''tanks'', JObj [(''fuel'', JObj [(''Main'', JObj [(''value'', JNum 1)]),
                                                            (''aux'', JObj [(''value'', JNum 2)])])])]))
     newPathManager None)
   = [''tanks.fuel.aux'', ''tanks.fuel.Main'']"
  by code_simp

text \<open>
  C7, as worded, fails. On a runtime whose \<^verbatim>\<open>localeCompare\<close> ignores case, the listing of a tree with the keys
  \<^verbatim>\<open>Main\<close> and \<^verbatim>\<open>aux\<close> puts \<^verbatim>\<open>tanks.fuel.aux\<close> before \<^verbatim>\<open>tanks.fuel.Main\<close>, which is not
  the lexicographic order of the paths. And the same tree and filter give two listings
  when the registry of created paths differs.
\<close>

theorem getAllPaths_not_lexicographic:
  "consistentComparator (localeCompare
     (foldingHost (JObj [(''tanks'', JObj [(''fuel'', JObj [(''Main'', JObj [(''value'', JNum 1)]),
                                                            (''aux'', JObj [(''value'', JNum 2)])])])])))
   \<and> map pi_path (getAllPaths
     (foldingHost (JObj [(''tanks'', JObj [(''fuel'', JObj [(''Main'', JObj [(''value'', JNum 1)]),
                                                            (''aux'', JObj [(''value'', JNum 2)])])])]))
     newPathManager None)
     = [''tanks.fuel.aux'', ''tanks.fuel.Main'']
   \<and> \<not> sorted (map pi_path (getAllPaths
     (foldingHost (JObj [(''tanks'', JObj [(''fuel'', JObj [(''Main'', JObj [(''value'', JNum 1)]),
                                                            (''aux'', JObj [(''value'', JNum 2)])])])]))
     newPathManager None))
   \<and> getAllPaths (hostWith (JObj [(''a'', JObj [(''value'', JNum 1)])])) newPathManager None
     \<noteq> getAllPaths (hostWith (JObj [(''a'', JObj [(''value'', JNum 1)])]))
         (newPathManager\<lparr>createdPaths := [(''a'', [(''units'', JStr ''ratio'')])]\<rparr>) None"
proof -
  have 1: "consistentComparator (localeCompare (foldingHost d))" for d
    by (simp add: foldingHost_def consistent_caseFoldCompare)
  have 2: "\<not> sorted [''tanks.fuel.aux'', ''tanks.fuel.Main'']"
    by code_simp
  have 3: "getAllPaths (hostWith (JObj [(''a'', JObj [(''value'', JNum 1)])])) newPathManager None
     \<noteq> getAllPaths (hostWith (JObj [(''a'', JObj [(''value'', JNum 1)])]))
         (newPathManager\<lparr>createdPaths := [(''a'', [(''units'', JStr ''ratio'')])]\<rparr>) None"
    by code_simp
  from 1 2 3 show ?thesis
    unfolding folding_listing by blast
qed

theorem getAllPaths_sorted_witness:
  "consistentComparator (localeCompare
     (foldingHost (JObj [(''tanks'', JObj [(''fuel'', JObj [(''Main'', JObj [(''value'', JNum 1)]),
                                                            (''aux'', JObj [(''value'', JNum 2)])])])])))
   \<and> sorted_wrt (\<lambda>x y. caseFoldCompare (pi_path x) (pi_path y) \<le> 0) (getAllPaths
     (foldingHost (JObj [(''tanks'', JObj [(''fuel'', JObj [(''Main'', JObj [(''value'', JNum 1)]),
                                                            (''aux'', JObj [(''value'', JNum 2)])])])]))
     newPathManager None)
   \<and> map pi_path (getAllPaths
     (foldingHost (JObj [(''tanks'', JObj [(''fuel'', JObj [(''Main'', JObj [(''value'', JNum 1)]),
                                                            (''aux'', JObj [(''value'', JNum 2)])])])]))
     newPathManager None)
     = [''tanks.fuel.aux'', ''tanks.fuel.Main'']
   \<and> localeCompare
     (hostWith (JObj [(''tanks'', JObj [(''fuel'', JObj [(''value'', JNum 1),
                                                         (''meta'', JObj [(''units'', JStr ''ratio'')])])]),
                      (''navigation'', JObj [(''speedOverGround'', JObj [(''value'', JNull)])])]))
       = codeUnitCompare
   \<and> sorted (map pi_path (getAllPaths
     (hostWith (JObj [(''tanks'', JObj [(''fuel'', JObj [(''value'', JNum 1),
                                                         (''meta'', JObj [(''units'', JStr ''ratio'')])])]),
                      (''navigation'', JObj [(''speedOverGround'', JObj [(''value'', JNull)])])]))
     newPathManager None))
   \<and> getAllPaths
     (hostWith (JObj [(''tanks'', JObj [(''fuel'', JObj [(''value'', JNum 1),
                                                         (''meta'', JObj [(''units'', JStr ''ratio'')])])]),
                      (''navigation'', JObj [(''speedOverGround'', JObj [(''value'', JNull)])])]))
     newPathManager None
     = getAllPaths
     ((hostWith (JObj [(''tanks'', JObj [(''fuel'', JObj [(''value'', JNum 1),
                                                         (''meta'', JObj [(''units'', JStr ''ratio'')])])]),
                      (''navigation'', JObj [(''speedOverGround'', JObj [(''value'', JNull)])])]))
        \<lparr>debugLog := [LogCreating ''x'' JNull]\<rparr>)
     (newPathManager\<lparr>selfContext := ''vessels.urn''\<rparr>) None"
proof -
  let ?f = "foldingHost (JObj [(''tanks'', JObj [(''fuel'', JObj [(''Main'', JObj [(''value'', JNum 1)]),
                                                            (''aux'', JObj [(''value'', JNum 2)])])])])"
  let ?a = "hostWith (JObj [(''tanks'', JObj [(''fuel'', JObj [(''value'', JNum 1),
                                                         (''meta'', JObj [(''units'', JStr ''ratio'')])])]),
                      (''navigation'', JObj [(''speedOverGround'', JObj [(''value'', JNull)])])])"
  have h1: "consistentComparator (localeCompare ?f)"
    by (simp add: foldingHost_def consistent_caseFoldCompare)
  have l: "localeCompare ?f = caseFoldCompare"
    by (simp add: foldingHost_def)
  have h2: "localeCompare ?a = codeUnitCompare"
    by (simp add: hostWith_def)
  note t1 = getAllPaths_sorted [of ?f newPathManager None ?f newPathManager]
  note t2 = getAllPaths_sorted [of ?a newPathManager None "?a\<lparr>debugLog := [LogCreating ''x'' JNull]\<rparr>"
      "newPathManager\<lparr>selfContext := ''vessels.urn''\<rparr>"]
  from t1 h1 have c0: "sorted_wrt (\<lambda>x y. caseFoldCompare (pi_path x) (pi_path y) \<le> 0)
      (getAllPaths ?f newPathManager None)"
    unfolding l by blast
  from t2 h2 have c1: "sorted (map pi_path (getAllPaths ?a newPathManager None))"
    by blast
  from t2 have c3: "getAllPaths ?a newPathManager None
     = getAllPaths (?a\<lparr>debugLog := [LogCreating ''x'' JNull]\<rparr>)
         (newPathManager\<lparr>selfContext := ''vessels.urn''\<rparr>) None"
    by simp
  from h1 h2 c0 c1 c3 folding_listing show ?thesis
    by blast
qed

section \<open>The registry of created paths\<close>

lemma createPath_manager:
  "fst (snd (createPath path v meta now1 now2 (pm, a))) =
     (case meta of
        Some m \<Rightarrow> pm\<lparr>createdPaths := AList.update path m (createdPaths pm)\<rparr>
      | None \<Rightarrow> pm)"
  by (simp add: createPath_def Let_def split: prod.splits promise.splits option.splits sum.splits)

lemma pmStep_created:
  "isCreatedPath (fst (pmStep st c)) p \<longleftrightarrow>
     isCreatedPath (fst st) p \<or> (\<exists>v m n1 n2. c = CreatePath p v (Some m) n1 n2)"
proof (cases st)
  case (Pair pm a)
  show ?thesis
  proof (cases c)
    case (CreatePath path v meta n1 n2)
    then show ?thesis
      by (cases meta) (auto simp: Pair createPath_manager isCreatedPath_def update_conv')
  next
    case (SetValue path v source now)
    then show ?thesis by simp
  qed
qed

lemma pmRun_created:
  "isCreatedPath (fst (foldl pmStep st calls)) p \<longleftrightarrow>
     isCreatedPath (fst st) p \<or> (\<exists>v m n1 n2. CreatePath p v (Some m) n1 n2 \<in> set calls)"
proof (induction calls arbitrary: st)
  case Nil
  then show ?case by simp
next
  case (Cons c calls)
  show ?case
    unfolding foldl_Cons Cons.IH pmStep_created by auto
qed

text \<open>
  C10. A \<^verbatim>\<open>createPath\<close> without metadata leaves the registry of created paths as it
  was: \<^verbatim>\<open>isCreatedPath\<close> and \<^verbatim>\<open>getCreatedPaths\<close> answer as before the call, so a path that
  was not recorded is not recorded afterwards and is not among the created paths. A
  \<^verbatim>\<open>createPath\<close> with metadata records its path. After any run of \<^verbatim>\<open>createPath\<close> and
  \<^verbatim>\<open>setValue\<close> calls from the start, the recorded paths are exactly those of the
  \<^verbatim>\<open>createPath\<close> calls that supplied metadata.
\<close>

theorem createPath_registry:
  "createdPaths (fst (snd (createPath path v None now1 now2 (pm, a)))) = createdPaths pm
   \<and> (\<not> isCreatedPath pm path \<longrightarrow>
         \<not> isCreatedPath (fst (snd (createPath path v None now1 now2 (pm, a)))) path
         \<and> path \<notin> set (getCreatedPaths (fst (snd (createPath path v None now1 now2 (pm, a))))))
   \<and> isCreatedPath (fst (snd (createPath path v (Some m) now1 now2 (pm, a)))) path
   \<and> path \<in> set (getCreatedPaths (fst (snd (createPath path v (Some m) now1 now2 (pm, a)))))
   \<and> (isCreatedPath (fst (pmRun calls (newPathManager, a))) path \<longleftrightarrow>
        (\<exists>v' m' n1 n2. CreatePath path v' (Some m') n1 n2 \<in> set calls))
   \<and> (path \<in> set (getCreatedPaths (fst (pmRun calls (newPathManager, a)))) \<longleftrightarrow>
        (\<exists>v' m' n1 n2. CreatePath path v' (Some m') n1 n2 \<in> set calls))"
proof -
  have mem: "q \<in> set (getCreatedPaths x) \<longleftrightarrow> isCreatedPath x q" for x q
    by (simp add: getCreatedPaths_def isCreatedPath_def map_of_eq_None_iff)
  have 1: "createdPaths (fst (snd (createPath path v None now1 now2 (pm, a)))) = createdPaths pm"
    by (simp add: createPath_manager)
  have 2: "isCreatedPath (fst (snd (createPath path v None now1 now2 (pm, a)))) path
      = isCreatedPath pm path"
    by (simp add: createPath_manager)
  have 3: "isCreatedPath (fst (snd (createPath path v (Some m) now1 now2 (pm, a)))) path"
    by (simp add: createPath_manager isCreatedPath_def update_conv')
  have 4: "isCreatedPath (fst (pmRun calls (newPathManager, a))) path \<longleftrightarrow>
        (\<exists>v' m' n1 n2. CreatePath path v' (Some m') n1 n2 \<in> set calls)"
    unfolding pmRun_def pmRun_created by (simp add: isCreatedPath_def newPathManager_def)
  from 1 2 3 4 show ?thesis
    unfolding mem by simp
qed

theorem createPath_registry_witness:
  "\<not> isCreatedPath newPathManager ''a.b''
   \<and> \<not> isCreatedPath (fst (snd (createPath ''a.b'' (JNum 1) None ''t1'' ''t2''
          (newPathManager, hostWith JUndefined)))) ''a.b''
   \<and> ''a.b'' \<notin> set (getCreatedPaths (fst (snd (createPath ''a.b'' (JNum 1) None ''t1'' ''t2''
          (newPathManager, hostWith JUndefined)))))
   \<and> isCreatedPath (fst (snd (createPath ''a.b'' (JNum 1) (Some [(''units'', JStr ''ratio'')]) ''t1'' ''t2''
          (newPathManager, hostWith JUndefined)))) ''a.b''
   \<and> isCreatedPath (fst (pmRun [CreatePath ''a.b'' (JNum 1) (Some [(''units'', JStr ''ratio'')]) ''t1'' ''t2'',
                                 CreatePath ''a.b'' (JNum 2) None ''t3'' ''t4'']
          (newPathManager, hostWith JUndefined))) ''a.b''"
proof -
  note t = createPath_registry [of "''a.b''" "JNum 1" "''t1''" "''t2''" newPathManager "hostWith JUndefined"
      "[(''units'', JStr ''ratio'')]"
      "[CreatePath ''a.b'' (JNum 1) (Some [(''units'', JStr ''ratio'')]) ''t1'' ''t2'',
        CreatePath ''a.b'' (JNum 2) None ''t3'' ''t4'']"]
  have h: "\<not> isCreatedPath newPathManager ''a.b''"
    by (simp add: isCreatedPath_def newPathManager_def)
  have e: "\<exists>v' m' n1 n2. CreatePath ''a.b'' v' (Some m') n1 n2 \<in>
      set [CreatePath ''a.b'' (JNum 1) (Some [(''units'', JStr ''ratio'')]) ''t1'' ''t2'',
           CreatePath ''a.b'' (JNum 2) None ''t3'' ''t4'']"
    by auto
  from t h e show ?thesis
    by blast
qed

end
